theory Spec2Isabelle
  imports Main "HOL-Library.Word" "HOL-Library.Char_ord" "HOL-Library.List_Lexorder"
    "HOL-Library.AList" "HOL-Library.Sublist" "HOL-Library.Multiset"
begin

unbundle bit_operations_syntax

section \<open>Strings and paths\<close>

text \<open>
  Go strings and byte slices are sequences of bytes; a byte is a \<^typ>\<open>char\<close> (exactly the
  256 values), a Go string is a \<^typ>\<open>string\<close>. Go compares strings bytewise, which is the
  lexicographic order on \<^typ>\<open>char list\<close>.
\<close>

text \<open>\<^verbatim>\<open>strings.Split(s, sep)\<close> for a one-byte separator: the fields between the separators;
  there is always at least one field.\<close>

fun split_on :: "char \<Rightarrow> string \<Rightarrow> string list" where
  "split_on c [] = [[]]"
| "split_on c (x # xs) =
     (if x = c then [] # split_on c xs
      else (case split_on c xs of
              [] \<Rightarrow> [[x]]
            | f # fs \<Rightarrow> (x # f) # fs))"

text \<open>\<^verbatim>\<open>strings.Join(elems, sep)\<close>.\<close>

fun join_with :: "string \<Rightarrow> string list \<Rightarrow> string" where
  "join_with sep [] = []"
| "join_with sep [x] = x"
| "join_with sep (x # y # ys) = x @ sep @ join_with sep (y # ys)"

text \<open>\<^verbatim>\<open>strings.HasPrefix\<close> and \<^verbatim>\<open>strings.HasSuffix\<close>.\<close>

definition HasPrefix :: "string \<Rightarrow> string \<Rightarrow> bool" where
  "HasPrefix s pre = (take (length pre) s = pre)"

definition HasSuffix :: "string \<Rightarrow> string \<Rightarrow> bool" where
  "HasSuffix s suf = (length suf \<le> length s \<and> drop (length s - length suf) s = suf)"

text \<open>
  \<^verbatim>\<open>path.Clean\<close> of Go's standard library. The library walks the path element by element
  keeping the output in a buffer; here the buffer is the stack of elements written so
  far, top first. An empty element and \<^verbatim>\<open>.\<close> are skipped; \<^verbatim>\<open>..\<close> removes the last
  element when there is one that is not itself \<^verbatim>\<open>..\<close>, is dropped at the root of a rooted
  path, and is kept at the start of a relative path.
\<close>

definition clean_step :: "bool \<Rightarrow> string list \<Rightarrow> string \<Rightarrow> string list" where
  "clean_step rooted st c =
     (if c = [] \<or> c = ''.'' then st
      else if c = ''..'' then
        (case st of
           [] \<Rightarrow> (if rooted then [] else [''..''])
         | t # ts \<Rightarrow> (if t = ''..'' then ''..'' # st else ts))
      else c # st)"

definition path_Clean :: "string \<Rightarrow> string" where
  "path_Clean p =
     (if p = [] then ''.''
      else
        let rooted = (hd p = CHR ''/'');
            body = join_with ''/'' (rev (foldl (clean_step rooted) [] (split_on CHR ''/'' p)))
        in if rooted then CHR ''/'' # body
           else if body = [] then ''.'' else body)"

text \<open>\<^verbatim>\<open>path.Split\<close>: the path up to and including the final slash, and what follows it.\<close>

definition path_Split :: "string \<Rightarrow> string \<times> string" where
  "path_Split p =
     (let file = rev (takeWhile (\<lambda>c. c \<noteq> CHR ''/'') (rev p))
      in (take (length p - length file) p, file))"

definition path_Dir :: "string \<Rightarrow> string" where
  "path_Dir p = path_Clean (fst (path_Split p))"

text \<open>\<^verbatim>\<open>path.Base\<close>: trailing slashes are stripped, then the last element is taken;
  the empty path gives \<^verbatim>\<open>.\<close>, a path of slashes only gives \<^verbatim>\<open>/\<close>.\<close>

definition path_Base :: "string \<Rightarrow> string" where
  "path_Base p =
     (if p = [] then ''.''
      else
        let q = rev (dropWhile (\<lambda>c. c = CHR ''/'') (rev p));
            b = snd (path_Split q)
        in if b = [] then ''/'' else b)"

text \<open>\<^verbatim>\<open>path.Join\<close> of two elements.\<close>

definition path_Join :: "string \<Rightarrow> string \<Rightarrow> string" where
  "path_Join a b =
     (if a = [] \<and> b = [] then []
      else if a = [] then path_Clean b
      else path_Clean (a @ ''/'' @ b))"

section \<open>Byte slices and the heap of backing arrays\<close>

text \<open>
  A Go byte slice is a header (pointer, length, capacity) over a backing array.
  Two slices with the same pointer share their bytes, and \<^verbatim>\<open>copy\<close> into one is seen
  through the other. The heap is the list of all backing arrays, an array's address its
  index. Address \<open>0\<close> holds the empty array: the \<^verbatim>\<open>nil\<close> slice and every slice of
  capacity zero point there, and nothing can be written through them.
\<close>

type_synonym heap = "string list"

record slice =
  ptr :: nat
  len :: nat
  cap :: nat

definition nil_slice :: slice where
  "nil_slice = \<lparr>ptr = 0, len = 0, cap = 0\<rparr>"

definition empty_heap :: heap where
  "empty_heap = [[]]"

text \<open>The bytes a slice denotes in a heap.\<close>

definition bytes_of :: "heap \<Rightarrow> slice \<Rightarrow> string" where
  "bytes_of h s = take (len s) (h ! ptr s)"

text \<open>
  \<^verbatim>\<open>make([]byte, l, c)\<close>: a fresh zeroed array of \<open>c\<close> bytes. The runtime panics
  (\<^verbatim>\<open>makeslice: cap out of range\<close>, the result \<open>None\<close> here) when \<open>c\<close> is below \<open>l\<close> or
  above its allocation limit \<^verbatim>\<open>maxAlloc\<close>, which is \<open>2 ^ 48\<close> bytes on 64-bit Linux.
  Memory below that limit is taken to be available.
\<close>

definition maxAlloc :: nat where
  "maxAlloc = 2 ^ 48"

definition make_slice :: "heap \<Rightarrow> nat \<Rightarrow> int \<Rightarrow> (slice \<times> heap) option" where
  "make_slice h l c =
     (if c < int l \<or> int maxAlloc < c then None
      else if c = 0 then Some (\<lparr>ptr = 0, len = l, cap = 0\<rparr>, h)
      else Some (\<lparr>ptr = length h, len = l, cap = nat c\<rparr>,
                 h @ [replicate (nat c) (CHR 0x00)]))"

text \<open>\<^verbatim>\<open>[]byte(s)\<close> and \<^verbatim>\<open>bytes.Buffer.Bytes()\<close>: a fresh array holding the bytes. The
  capacity is taken to be the length (the runtime may round it up; no other slice
  shares the array at that point).\<close>

definition alloc_bytes :: "heap \<Rightarrow> string \<Rightarrow> slice \<times> heap" where
  "alloc_bytes h bs =
     (if bs = [] then (\<lparr>ptr = 0, len = 0, cap = 0\<rparr>, h)
      else (\<lparr>ptr = length h, len = length bs, cap = length bs\<rparr>, h @ [bs]))"

text \<open>\<^verbatim>\<open>copy(dst[off:], src)\<close> where \<open>dst\<close> has its bytes at address \<open>a\<close> and length \<open>n\<close>:
  the bytes of \<open>src\<close> overwrite the array in place from \<open>off\<close>, as many as fit below \<open>n\<close>.\<close>

definition copy_into :: "heap \<Rightarrow> nat \<Rightarrow> nat \<Rightarrow> nat \<Rightarrow> string \<Rightarrow> heap" where
  "copy_into h a n off src =
     (let arr = h ! a;
          k = min (length src) (n - off)
      in h[a := take off arr @ take k src @ drop (off + k) arr])"

section \<open>The session filesystem (fs.go)\<close>

definition MaxFileSize :: nat where
  "MaxFileSize = 5 * 2 ^ 20"

text \<open>The permission constants of the source are octal literals.\<close>

abbreviation m0777 :: "32 word" where "m0777 \<equiv> 511"
abbreviation m0755 :: "32 word" where "m0755 \<equiv> 493"
abbreviation m0666 :: "32 word" where "m0666 \<equiv> 438"
abbreviation m0644 :: "32 word" where "m0644 \<equiv> 420"
abbreviation m0640 :: "32 word" where "m0640 \<equiv> 416"
abbreviation m0444 :: "32 word" where "m0444 \<equiv> 292"

text \<open>\<^verbatim>\<open>os.ModeDir\<close> is bit 31 of the 32-bit file mode.\<close>

definition ModeDir :: "32 word" where
  "ModeDir = push_bit 31 1"

text \<open>
  \<^verbatim>\<open>FileEntry\<close>. The modification time is an abstract instant; the per-entry lock has no
  content in a sequential model. An entry object of the overlay is reached only through
  the overlay map (no pointer to it is stored anywhere else, and the entries of BaseFS
  are copied, never linked, into an overlay), so the maps hold the entries by value; the
  sharing that remains, that of the content's backing array, is explicit in \<open>Content\<close>.
\<close>

record FileEntry =
  Name :: string
  IsDir :: bool
  Content :: slice
  Mode :: "32 word"
  ModTime :: nat
  UID :: int
  GID :: int
  Nlink :: int

text \<open>
  \<^verbatim>\<open>SessionFS\<close>. The overlay is a Go map from paths to entry pointers, a \<^verbatim>\<open>nil\<close>
  pointer (\<open>None\<close>) marking a deleted path. It is an association list with one pair for
  each key; the order of the list stands for the order in which Go happens to iterate
  over the map, which is not specified.
\<close>

type_synonym basefs = "(string \<times> FileEntry) list"

record SessionFS =
  overlay :: "(string \<times> FileEntry option) list"
  cwd :: string

datatype fs_error = ErrNotExist | ErrQuota | ErrSSHFxOpUnsupported

definition NewSessionFS :: SessionFS where
  "NewSessionFS = \<lparr>overlay = [], cwd = ''/root''\<rparr>"

definition Abs :: "SessionFS \<Rightarrow> string \<Rightarrow> string" where
  "Abs fs p =
     (if p = [] then cwd fs
      else if p = ''~'' then ''/root''
      else if HasPrefix p ''~/'' then path_Join ''/root'' (drop 2 p)
      else if \<not> HasPrefix p ''/'' then path_Clean (path_Join (cwd fs) p)
      else path_Clean p)"

text \<open>\<^verbatim>\<open>GetEntry\<close>: the overlay first, a tombstone there meaning not found, then BaseFS.\<close>

definition GetEntry :: "basefs \<Rightarrow> SessionFS \<Rightarrow> string \<Rightarrow> FileEntry option" where
  "GetEntry base fs p0 =
     (let p = path_Clean p0 in
      case map_of (overlay fs) p of
        Some None \<Rightarrow> None
      | Some (Some e) \<Rightarrow> Some e
      | None \<Rightarrow> map_of base p)"

text \<open>\<^verbatim>\<open>Write\<close>. The entry keeps the caller's slice: no bytes are copied.\<close>

definition Write :: "basefs \<Rightarrow> SessionFS \<Rightarrow> string \<Rightarrow> slice \<Rightarrow> 32 word \<Rightarrow> nat
    \<Rightarrow> fs_error + SessionFS" where
  "Write base fs p0 data mode now =
     (if len data > MaxFileSize then Inl ErrQuota
      else
        let p = path_Clean p0 in
        case map_of (overlay fs) p of
          Some (Some existing) \<Rightarrow>
            Inr (fs\<lparr>overlay := AList.update p
                   (Some (existing\<lparr>Content := data, ModTime := now,
                            Mode := (if mode \<noteq> 0 then mode else Mode existing)\<rparr>))
                   (overlay fs)\<rparr>)
        | _ \<Rightarrow>
            let b = map_of base p;
                uid = (case b of Some be \<Rightarrow> UID be | None \<Rightarrow> 0);
                gid = (case b of Some be \<Rightarrow> GID be | None \<Rightarrow> 0);
                mode' = (if mode = 0
                         then (case b of Some be \<Rightarrow> Mode be | None \<Rightarrow> m0644)
                         else mode)
            in Inr (fs\<lparr>overlay := AList.update p
                      (Some \<lparr>Name = path_Base p, IsDir = False, Content = data,
                             Mode = mode', ModTime = now, UID = uid, GID = gid,
                             Nlink = 1\<rparr>)
                      (overlay fs)\<rparr>))"

definition Mkdir :: "SessionFS \<Rightarrow> string \<Rightarrow> nat \<Rightarrow> fs_error + SessionFS" where
  "Mkdir fs p0 now =
     (let p = path_Clean p0 in
      Inr (fs\<lparr>overlay := AList.update p
             (Some \<lparr>Name = path_Base p, IsDir = True, Content = nil_slice,
                    Mode = m0755 OR ModeDir, ModTime = now, UID = 0, GID = 0,
                    Nlink = 2\<rparr>)
             (overlay fs)\<rparr>))"

definition Remove :: "SessionFS \<Rightarrow> string \<Rightarrow> fs_error + SessionFS" where
  "Remove fs p0 =
     (let p = path_Clean p0 in
      Inr (fs\<lparr>overlay := AList.update p None (overlay fs)\<rparr>))"

text \<open>\<^verbatim>\<open>Rename\<close>: the entry found is copied as a struct, so the copy's content is the same
  slice; the two assignments to the overlay use the paths as given.\<close>

definition Rename :: "basefs \<Rightarrow> SessionFS \<Rightarrow> string \<Rightarrow> string \<Rightarrow> nat
    \<Rightarrow> fs_error + SessionFS" where
  "Rename base fs oldP newP now =
     (case GetEntry base fs oldP of
        None \<Rightarrow> Inl ErrNotExist
      | Some e \<Rightarrow>
          let newEntry = e\<lparr>Name := path_Base newP, ModTime := now\<rparr>
          in Inr (fs\<lparr>overlay := AList.update oldP None
                    (AList.update newP (Some newEntry) (overlay fs))\<rparr>))"

definition chmod_bits :: "32 word \<Rightarrow> 32 word \<Rightarrow> 32 word" where
  "chmod_bits old mode = (old AND NOT m0777) OR (mode AND m0777)"

definition Chmod :: "basefs \<Rightarrow> SessionFS \<Rightarrow> string \<Rightarrow> 32 word \<Rightarrow> nat
    \<Rightarrow> fs_error + SessionFS" where
  "Chmod base fs p mode now =
     (case GetEntry base fs p of
        None \<Rightarrow> Inl ErrNotExist
      | Some e \<Rightarrow>
          (case map_of (overlay fs) p of
             Some (Some existing) \<Rightarrow>
               Inr (fs\<lparr>overlay := AList.update p
                      (Some (existing\<lparr>Mode := chmod_bits (Mode existing) mode,
                               ModTime := now\<rparr>))
                      (overlay fs)\<rparr>)
           | _ \<Rightarrow>
               Inr (fs\<lparr>overlay := AList.update p
                      (Some (e\<lparr>Mode := chmod_bits (Mode e) mode, ModTime := now\<rparr>))
                      (overlay fs)\<rparr>)))"

definition Chown :: "basefs \<Rightarrow> SessionFS \<Rightarrow> string \<Rightarrow> int \<Rightarrow> int \<Rightarrow> nat
    \<Rightarrow> fs_error + SessionFS" where
  "Chown base fs p uid gid now =
     (case GetEntry base fs p of
        None \<Rightarrow> Inl ErrNotExist
      | Some e \<Rightarrow>
          (let own = (\<lambda>x. x\<lparr>UID := (if uid \<noteq> - 1 then uid else UID x),
                            GID := (if gid \<noteq> - 1 then gid else GID x),
                            ModTime := now\<rparr>)
           in case map_of (overlay fs) p of
                Some (Some existing) \<Rightarrow>
                  Inr (fs\<lparr>overlay := AList.update p (Some (own existing)) (overlay fs)\<rparr>)
              | _ \<Rightarrow>
                  Inr (fs\<lparr>overlay := AList.update p (Some (own e)) (overlay fs)\<rparr>)))"

section \<open>The base filesystem (fs_data.go)\<close>

text \<open>
  \<^verbatim>\<open>initFS\<close> fills the process-wide map \<^verbatim>\<open>BaseFS\<close>: the directories first, then the
  files, then one stub for every simulated command under \<^verbatim>\<open>/bin\<close> and \<^verbatim>\<open>/usr/bin\<close>.
  Every file's content is a fresh byte array, so filling the map yields a heap together
  with the map. The time \<open>t\<close> is the instant of the call.
\<close>

definition dirs :: "string list" where
  "dirs =
    [''/'', ''/bin'', ''/boot'', ''/dev'', ''/etc'', ''/home'', ''/lib'', ''/lib64'',
     ''/media'', ''/mnt'', ''/opt'', ''/proc'', ''/root'', ''/run'', ''/sbin'', ''/srv'',
     ''/sys'', ''/tmp'', ''/usr'', ''/var'', ''/usr/bin'', ''/usr/sbin'', ''/usr/local'',
     ''/usr/local/bin'', ''/var/log'', ''/home/user'', ''/etc/ssh'', ''/etc/systemd'',
     ''/etc/network'', ''/proc/sys'', ''/proc/sys/kernel'', ''/proc/net'', ''/sys/class'',
     ''/sys/class/net'', ''/sys/class/net/eth0'', ''/var/www'', ''/var/www/html'']"

definition passwdContent :: string where
  "passwdContent =
     ''root:x:0:0:root:/root:/bin/bash\<newline>'' @
     ''daemon:x:1:1:daemon:/usr/sbin:/usr/sbin/nologin\<newline>'' @
     ''bin:x:2:2:bin:/bin:/usr/sbin/nologin\<newline>'' @
     ''sys:x:3:3:sys:/dev:/usr/sbin/nologin\<newline>'' @
     ''sync:x:4:65534:sync:/bin:/bin/sync\<newline>'' @
     ''games:x:5:60:games:/usr/games:/usr/sbin/nologin\<newline>'' @
     ''man:x:6:12:man:/var/cache/man:/usr/sbin/nologin\<newline>'' @
     ''lp:x:7:7:lp:/var/spool/lpd:/usr/sbin/nologin\<newline>'' @
     ''mail:x:8:8:mail:/var/mail:/usr/sbin/nologin\<newline>'' @
     ''news:x:9:9:news:/var/spool/news:/usr/sbin/nologin\<newline>'' @
     ''www-data:x:33:33:www-data:/var/www:/usr/sbin/nologin\<newline>'' @
     ''sshd:x:108:65534::/run/sshd:/usr/sbin/nologin\<newline>'' @
     ''user:x:1000:1000:user:/home/user:/bin/bash\<newline>''"

definition groupContent :: string where
  "groupContent =
     ''root:x:0:\<newline>'' @
     ''daemon:x:1:\<newline>'' @
     ''bin:x:2:\<newline>'' @
     ''sys:x:3:\<newline>'' @
     ''adm:x:4:syslog\<newline>'' @
     ''tty:x:5:\<newline>'' @
     ''disk:x:6:\<newline>'' @
     ''lp:x:7:\<newline>'' @
     ''mail:x:8:\<newline>'' @
     ''news:x:9:\<newline>'' @
     ''www-data:x:33:\<newline>'' @
     ''sshd:x:108:\<newline>'' @
     ''user:x:1000:\<newline>''"

definition cmds :: "string list" where
  "cmds =
    [''ls'', ''cd'', ''pwd'', ''cat'', ''echo'', ''touch'', ''mkdir'', ''rm'', ''mv'',
     ''cp'', ''grep'', ''ps'', ''top'', ''kill'', ''id'', ''whoami'', ''w'', ''last'',
     ''history'', ''date'', ''uptime'', ''free'', ''df'', ''uname'', ''stty'', ''env'',
     ''clear'', ''exit'', ''vi'', ''vim'', ''wget'', ''curl'', ''ssh'', ''chmod'',
     ''chown'', ''which'', ''find'', ''head'', ''tail'', ''wc'', ''export'', ''mount'',
     ''stat'', ''who'', ''sudo'', ''ping'', ''netstat'', ''ss'', ''sleep'', ''ln'',
     ''rmdir'', ''more'', ''less'', ''kernelpanic'']"

definition binContent :: string where
  "binContent =
     [CHR 0x7F] @ ''ELF'' @
       [CHR 0x02, CHR 0x01, CHR 0x01, CHR 0x00, CHR 0x00, CHR 0x00, CHR 0x00, CHR 0x00, CHR 0x00, CHR 0x00, CHR 0x00, CHR 0x00, CHR 0x02, CHR 0x00] @
       ''>'' @ [CHR 0x00, CHR 0x01, CHR 0x00, CHR 0x00, CHR 0x00]"

definition files :: "(string \<times> string \<times> 32 word \<times> int \<times> int) list" where
  "files =
    [(''/etc/passwd'',
      passwdContent,
      m0644, 0, 0),
     (''/etc/group'',
      groupContent,
      m0644, 0, 0),
     (''/etc/hostname'',
      ''ubuntu-server'',
      m0644, 0, 0),
     (''/etc/os-release'',
      ''PRETTY_NAME='' @ [CHR 0x22] @ ''Ubuntu 22.04.1 LTS'' @ [CHR 0x22] @
        ''\<newline>NAME='' @ [CHR 0x22] @ ''Ubuntu'' @ [CHR 0x22] @
        ''\<newline>VERSION_ID='' @ [CHR 0x22] @ ''22.04'' @ [CHR 0x22] @
        ''\<newline>VERSION='' @ [CHR 0x22] @ ''22.04.1 LTS (Jammy Jellyfish)'' @
        [CHR 0x22] @ ''\<newline>ID=ubuntu\<newline>'',
      m0644, 0, 0),
     (''/etc/issue'',
      ''Ubuntu 22.04.1 LTS '' @ [CHR 0x5C] @ ''n '' @ [CHR 0x5C] @ ''l\<newline>'',
      m0644, 0, 0),
     (''/etc/shadow'',
      ''root:*:18890:0:99999:7:::\<newline>user:$6$...:18890:0:99999:7:::\<newline>'',
      m0640, 0, 42),
     (''/root/.bashrc'',
      ''export PS1='' @ [CHR 0x27, CHR 0x5C] @ ''['' @ [CHR 0x5C] @ ''033[01;32m'' @
        [CHR 0x5C] @ '']'' @ [CHR 0x5C] @ ''u@'' @ [CHR 0x5C] @ ''h'' @ [CHR 0x5C] @
        ''['' @ [CHR 0x5C] @ ''033[00m'' @ [CHR 0x5C] @ '']:'' @ [CHR 0x5C] @ ''['' @
        [CHR 0x5C] @ ''033[01;34m'' @ [CHR 0x5C] @ '']'' @ [CHR 0x5C] @ ''w'' @
        [CHR 0x5C] @ ''['' @ [CHR 0x5C] @ ''033[00m'' @ [CHR 0x5C] @ '']'' @ [CHR 0x5C] @
        ''$ '' @ [CHR 0x27] @ ''\<newline>alias ll='' @ [CHR 0x27] @ ''ls -alF'' @
        [CHR 0x27] @ ''\<newline>'',
      m0644, 0, 0),
     (''/etc/hosts'',
      ''127.0.0.1 localhost\<newline>127.0.1.1 ubuntu-server\<newline>'',
      m0644, 0, 0),
     (''/etc/resolv.conf'',
      ''nameserver 1.1.1.1\<newline>nameserver 8.8.8.8\<newline>'',
      m0644, 0, 0),
     (''/etc/fstab'',
      ''/dev/sda2 / ext4 defaults 0 0\<newline>'',
      m0644, 0, 0),
     (''/proc/version'',
      ''Linux version 5.15.0-generic (buildd@lcy02-amd64-001) (gcc version 11.2.0 (Ubuntu 11.2.0-19ubuntu1))'',
      m0444, 0, 0),
     (''/proc/cpuinfo'',
      ''processor'' @ [CHR 0x09] @ '': 0\<newline>vendor_id'' @ [CHR 0x09] @
        '': GenuineIntel\<newline>cpu family'' @ [CHR 0x09] @ '': 6\<newline>model'' @
        [CHR 0x09, CHR 0x09] @ '': 165\<newline>model name'' @ [CHR 0x09] @
        '': Intel(R) Core(TM) i7-10700 CPU @ 2.90GHz\<newline>\<newline>processor'' @
        [CHR 0x09] @ '': 1\<newline>vendor_id'' @ [CHR 0x09] @
        '': GenuineIntel\<newline>cpu family'' @ [CHR 0x09] @ '': 6\<newline>model'' @
        [CHR 0x09, CHR 0x09] @ '': 165\<newline>model name'' @ [CHR 0x09] @
        '': Intel(R) Core(TM) i7-10700 CPU @ 2.90GHz\<newline>'',
      m0444, 0, 0),
     (''/proc/meminfo'',
      ''MemTotal:       16303284 kB\<newline>MemFree:         2543210 kB\<newline>MemAvailable:   10234123 kB\<newline>Buffers:          223412 kB\<newline>Cached:          8123456 kB\<newline>SwapTotal:       2097148 kB\<newline>SwapFree:        2097148 kB\<newline>'',
      m0444, 0, 0),
     (''/proc/uptime'',
      ''3600.00 7100.00'',
      m0444, 0, 0),
     (''/proc/loadavg'',
      ''0.01 0.05 0.05 1/256 12345'',
      m0444, 0, 0),
     (''/sys/class/net/eth0/address'',
      ''00:11:22:33:44:55\<newline>'',
      m0444, 0, 0),
     (''/dev/null'',
      [],
      m0666, 0, 0),
     (''/dev/zero'',
      [],
      m0666, 0, 0),
     (''/dev/random'',
      ''gibberish...'',
      m0666, 0, 0),
     (''/dev/urandom'',
      ''more gibberish...'',
      m0666, 0, 0)]"

definition bin_files :: "(string \<times> string \<times> 32 word \<times> int \<times> int) list" where
  "bin_files =
     concat (map (\<lambda>c. [(''/bin/'' @ c, binContent, m0755, 0, 0),
                        (''/usr/bin/'' @ c, binContent, m0755, 0, 0)]) cmds)"

definition add_dir :: "nat \<Rightarrow> basefs \<Rightarrow> string \<Rightarrow> basefs" where
  "add_dir t base d =
     AList.update d
       \<lparr>Name = path_Base d, IsDir = True, Content = nil_slice, Mode = m0755 OR ModeDir,
        ModTime = t, UID = 0, GID = 0, Nlink = 2\<rparr> base"

definition add :: "nat \<Rightarrow> heap \<times> basefs \<Rightarrow> string \<times> string \<times> 32 word \<times> int \<times> int
    \<Rightarrow> heap \<times> basefs" where
  "add t hb f =
     (case hb of (h, base) \<Rightarrow>
      case f of (filePath, content, mode, uid, gid) \<Rightarrow>
        (case alloc_bytes h content of (s, h') \<Rightarrow>
           (h', AList.update filePath
                  \<lparr>Name = path_Base filePath, IsDir = False, Content = s, Mode = mode,
                   ModTime = t, UID = uid, GID = gid, Nlink = 1\<rparr> base)))"

definition initBaseFS :: "nat \<Rightarrow> heap \<times> basefs" where
  "initBaseFS t =
     foldl (add t) (empty_heap, foldl (add_dir t) [] dirs) (files @ bin_files)"

text \<open>\<^verbatim>\<open>BaseFSDirCache\<close>: for every directory the entries of BaseFS whose path has it as
  \<^verbatim>\<open>path.Dir\<close>, a path that is its own directory (the root) left out. The source fills
  the index once from BaseFS; here it is read off BaseFS at each use. A directory with
  no such entry has no key in the index, which is the empty list here.\<close>

definition BaseFSDirCache :: "basefs \<Rightarrow> string \<Rightarrow> FileEntry list" where
  "BaseFSDirCache base d =
     map snd (filter (\<lambda>(p, e). path_Dir p = d \<and> p \<noteq> path_Dir p) base)"

text \<open>
  \<^verbatim>\<open>strings.ToLower\<close> of Go's standard library. A string of ASCII bytes only is mapped
  byte by byte: each of the letters \<^verbatim>\<open>A\<close> to \<^verbatim>\<open>Z\<close> becomes its lower-case letter (32 is added
  to the byte, which for these bytes sets the bit of value 32), every other byte is
  kept. Any other string goes through \<^verbatim>\<open>strings.Map\<close> with \<^verbatim>\<open>unicode.ToLower\<close>: the string
  is read as UTF-8 rune by rune, each rune is mapped, and the results are written in
  UTF-8 again.
\<close>

definition lower_char :: "char \<Rightarrow> char" where
  "lower_char c =
     (if CHR ''A'' \<le> c \<and> c \<le> CHR ''Z''
      then (case c of Char b0 b1 b2 b3 b4 b5 b6 b7 \<Rightarrow> Char b0 b1 b2 b3 b4 True b6 b7)
      else c)"

text \<open>
  \<^verbatim>\<open>utf8.DecodeRuneInString\<close>: the first rune of a string and its width in bytes. A byte
  below \<^verbatim>\<open>0x80\<close> is a rune by itself. The bytes \<^verbatim>\<open>0xC2\<close> to \<^verbatim>\<open>0xF4\<close> start an encoding of
  two, three or four bytes, whose second byte must lie in a range that depends on the
  first (no overlong form, no surrogate, nothing above \<^verbatim>\<open>U+10FFFF\<close>) and whose other bytes
  must lie between \<^verbatim>\<open>0x80\<close> and \<^verbatim>\<open>0xBF\<close>. Anything else is the rune \<^verbatim>\<open>U+FFFD\<close> of width 1.
\<close>

definition RuneError :: int where
  "RuneError = 0xFFFD"

definition cont_byte :: "char \<Rightarrow> bool" where
  "cont_byte c = (0x80 \<le> (of_char c :: nat) \<and> (of_char c :: nat) \<le> 0xBF)"

definition DecodeRune :: "string \<Rightarrow> int \<times> nat" where
  "DecodeRune s =
     (case s of
        [] \<Rightarrow> (RuneError, 0)
      | c0 # s1 \<Rightarrow>
          let b0 = (of_char c0 :: nat) in
          if b0 < 0x80 then (int b0, 1)
          else if b0 < 0xC2 \<or> 0xF4 < b0 then (RuneError, 1)
          else if b0 < 0xE0 then
            (case s1 of
               c1 # s2 \<Rightarrow>
                 if cont_byte c1
                 then (int ((b0 - 0xC0) * 64 + (of_char c1 - 0x80)), 2)
                 else (RuneError, 1)
             | [] \<Rightarrow> (RuneError, 1))
          else if b0 < 0xF0 then
            (case s1 of
               c1 # c2 # s3 \<Rightarrow>
                 if (if b0 = 0xE0 then 0xA0 else 0x80) \<le> (of_char c1 :: nat)
                    \<and> (of_char c1 :: nat) \<le> (if b0 = 0xED then 0x9F else 0xBF)
                    \<and> cont_byte c2
                 then (int ((b0 - 0xE0) * 4096 + (of_char c1 - 0x80) * 64
                            + (of_char c2 - 0x80)), 3)
                 else (RuneError, 1)
             | _ \<Rightarrow> (RuneError, 1))
          else
            (case s1 of
               c1 # c2 # c3 # s4 \<Rightarrow>
                 if (if b0 = 0xF0 then 0x90 else 0x80) \<le> (of_char c1 :: nat)
                    \<and> (of_char c1 :: nat) \<le> (if b0 = 0xF4 then 0x8F else 0xBF)
                    \<and> cont_byte c2 \<and> cont_byte c3
                 then (int ((b0 - 0xF0) * 262144 + (of_char c1 - 0x80) * 4096
                            + (of_char c2 - 0x80) * 64 + (of_char c3 - 0x80)), 4)
                 else (RuneError, 1)
             | _ \<Rightarrow> (RuneError, 1)))"

text \<open>
  \<^verbatim>\<open>utf8.AppendRune\<close>: the UTF-8 encoding of a rune; a value that is no rune (negative,
  above \<^verbatim>\<open>U+10FFFF\<close>, or a surrogate) is written as \<^verbatim>\<open>U+FFFD\<close>.
\<close>

definition EncodeRune :: "int \<Rightarrow> string" where
  "EncodeRune r =
     (if 0 \<le> r \<and> r \<le> 0x7F then [char_of (nat r)]
      else if 0 \<le> r \<and> r \<le> 0x7FF then
        [char_of (nat (0xC0 + r div 64)), char_of (nat (0x80 + r mod 64))]
      else if r < 0 \<or> 0x10FFFF < r \<or> (0xD800 \<le> r \<and> r \<le> 0xDFFF) then
        [CHR 0xEF, CHR 0xBF, CHR 0xBD]
      else if r \<le> 0xFFFF then
        [char_of (nat (0xE0 + r div 4096)), char_of (nat (0x80 + (r div 64) mod 64)),
         char_of (nat (0x80 + r mod 64))]
      else
        [char_of (nat (0xF0 + r div 262144)), char_of (nat (0x80 + (r div 4096) mod 64)),
         char_of (nat (0x80 + (r div 64) mod 64)), char_of (nat (0x80 + r mod 64))])"

text \<open>
  \<^verbatim>\<open>strings.Map\<close>: the runes of the string, each mapped and written again; a rune that is
  mapped to a negative value is dropped. (The library copies the string up to the first
  rune that changes; a valid encoding is written again as the same bytes.)
\<close>

function Map_runes :: "(int \<Rightarrow> int) \<Rightarrow> string \<Rightarrow> string" where
  "Map_runes f [] = []"
| "Map_runes f (c # s) =
     (let r = f (fst (DecodeRune (c # s)))
      in (if 0 \<le> r then EncodeRune r else [])
         @ Map_runes f (drop (snd (DecodeRune (c # s)) - 1) s))"
  by pat_completeness auto
termination
  by (relation "measure (\<lambda>(f, s). length s)") auto

declare Map_runes.simps(2) [simp del]

text \<open>
  \<^verbatim>\<open>unicode.ToLower\<close>: an ASCII rune is mapped by the rule above; any other rune is looked
  up in the case table of the Unicode version that the library was built with. That
  table is no part of the program: it is the parameter \<open>tbl\<close> here, and what is proved
  below holds for every table.
\<close>

definition unicode_ToLower :: "(int \<Rightarrow> int) \<Rightarrow> int \<Rightarrow> int" where
  "unicode_ToLower tbl r =
     (if r \<le> 0x7F then (if 0x41 \<le> r \<and> r \<le> 0x5A then r + 32 else r) else tbl r)"

definition ToLower :: "(int \<Rightarrow> int) \<Rightarrow> string \<Rightarrow> string" where
  "ToLower tbl s =
     (if list_all (\<lambda>c. c < CHR 0x80) s then
        (if list_ex (\<lambda>c. CHR ''A'' \<le> c \<and> c \<le> CHR ''Z'') s then map lower_char s else s)
      else Map_runes (unicode_ToLower tbl) s)"

text \<open>
  \<^verbatim>\<open>ListDir\<close>. The local map \<^verbatim>\<open>items\<close> from names to entries is an association list;
  it starts with the cached children of the directory, then the pairs of the overlay are
  visited: a pair whose key has the directory as \<^verbatim>\<open>path.Dir\<close> (and is not the directory
  itself) deletes its base name when it is a tombstone and stores its entry under the
  entry's name otherwise. The order in which \<^verbatim>\<open>range\<close> visits the pairs of a Go map is not
  fixed by the language; the list \<open>ov\<close> gives the pairs of the overlay in the order of
  the visit.
\<close>

definition list_step :: "string \<Rightarrow> (string \<times> FileEntry) list \<Rightarrow> string \<times> FileEntry option
    \<Rightarrow> (string \<times> FileEntry) list" where
  "list_step dirPath items pe =
     (case pe of (p, e) \<Rightarrow>
        if path_Dir p = dirPath \<and> p \<noteq> dirPath then
          (case e of
             None \<Rightarrow> AList.delete (path_Base p) items
           | Some e' \<Rightarrow> AList.update (Name e') e' items)
        else items)"

definition list_items :: "basefs \<Rightarrow> (string \<times> FileEntry option) list \<Rightarrow> string
    \<Rightarrow> (string \<times> FileEntry) list" where
  "list_items base ov dirPath =
     foldl (list_step dirPath)
       (foldl (\<lambda>items e. AList.update (Name e) e items) [] (BaseFSDirCache base dirPath))
       ov"

text \<open>
  The values of \<^verbatim>\<open>items\<close> are then sorted with \<^verbatim>\<open>sort.Slice\<close>, an entry coming before
  another when its lower-cased name is smaller. (\<^verbatim>\<open>sort.Slice\<close> leaves the order of
  entries with equal keys open; the model keeps them in the order of \<^verbatim>\<open>items\<close>.)
  \<open>ListDir_visiting\<close> is \<^verbatim>\<open>ListDir\<close> for a given order of the visit of the overlay, and
  \<open>ListDir\<close> is \<^verbatim>\<open>ListDir\<close> when the pairs are visited in the order in which they were
  first stored.
\<close>

definition ListDir_visiting :: "(string \<times> FileEntry option) list \<Rightarrow> (int \<Rightarrow> int) \<Rightarrow> basefs
    \<Rightarrow> SessionFS \<Rightarrow> string \<Rightarrow> fs_error + FileEntry list" where
  "ListDir_visiting ov tbl base fs p0 =
     (let dirPath = path_Clean p0 in
      case GetEntry base fs dirPath of
        None \<Rightarrow> Inl ErrNotExist
      | Some entry \<Rightarrow>
          if \<not> IsDir entry then Inl ErrNotExist
          else Inr (sort_key (\<lambda>e. ToLower tbl (Name e)) (map snd (list_items base ov dirPath))))"

definition ListDir :: "(int \<Rightarrow> int) \<Rightarrow> basefs \<Rightarrow> SessionFS \<Rightarrow> string
    \<Rightarrow> fs_error + FileEntry list" where
  "ListDir tbl base fs p0 = ListDir_visiting (overlay fs) tbl base fs p0"





text \<open>
  Normalized paths and overlays. A good element of a path is not empty, has no slash, and
  is neither \<^verbatim>\<open>.\<close> nor \<^verbatim>\<open>..\<close>. A path is normalized when it is rooted and \<^verbatim>\<open>path.Clean\<close>
  leaves it as it is. An overlay is normalized when no key occurs twice, every key is a
  normalized path, and every entry is stored under a key whose base name is the entry's
  name.
\<close>

definition good_elem :: "string \<Rightarrow> bool" where
  "good_elem c = (c \<noteq> [] \<and> CHR ''/'' \<notin> set c \<and> c \<noteq> ''.'' \<and> c \<noteq> ''..'')"

definition normalized :: "string \<Rightarrow> bool" where
  "normalized p = (p \<noteq> [] \<and> hd p = CHR ''/'' \<and> path_Clean p = p)"

definition named_by_key :: "string \<times> FileEntry option \<Rightarrow> bool" where
  "named_by_key pe = (case snd pe of None \<Rightarrow> True | Some e \<Rightarrow> Name e = path_Base (fst pe))"

definition normalized_overlay :: "(string \<times> FileEntry option) list \<Rightarrow> bool" where
  "normalized_overlay ov =
     (distinct (map fst ov) \<and> list_all (\<lambda>pe. normalized (fst pe) \<and> named_by_key pe) ov)"

text \<open>
  The state of the process: the heap of byte arrays, BaseFS, the \<^verbatim>\<open>SessionFS\<close> objects
  allocated so far (a \<^verbatim>\<open>*SessionFS\<close> is an index into this list) and the global variable
  \<^verbatim>\<open>GlobalSessionFS\<close>, which \<^verbatim>\<open>initFS\<close> sets to a new \<^verbatim>\<open>SessionFS\<close> at its end.
\<close>

record world =
  Heap :: heap
  BaseFS :: basefs
  Sessions :: "SessionFS list"
  GlobalSessionFS :: nat

definition initFS :: "nat \<Rightarrow> world" where
  "initFS t =
     (case initBaseFS t of (h, base) \<Rightarrow>
        \<lparr>Heap = h, BaseFS = base, Sessions = [NewSessionFS], GlobalSessionFS = 0\<rparr>)"

text \<open>A call of \<^verbatim>\<open>NewSessionFS()\<close> in a running process: a new object, and its address.\<close>

definition new_session :: "world \<Rightarrow> nat \<times> world" where
  "new_session w = (length (Sessions w), w\<lparr>Sessions := Sessions w @ [NewSessionFS]\<rparr>)"

section \<open>The SFTP adapter (srv_sftp.go)\<close>

text \<open>
  Go's \<^verbatim>\<open>int\<close> and \<^verbatim>\<open>int64\<close> are 64 bits wide (a 64-bit platform); an addition that
  leaves the range wraps around.
\<close>

definition wrap64 :: "int \<Rightarrow> int" where
  "wrap64 x = (x + 2 ^ 63) mod 2 ^ 64 - 2 ^ 63"

text \<open>The outcome of \<^verbatim>\<open>WriteAt\<close>: the number of bytes written, the quota error, or a
  run-time panic (of \<^verbatim>\<open>make\<close>, or of a slice expression out of range).\<close>

datatype write_result = Written nat | QuotaExceeded | PanicMakeslice | PanicSliceBounds

definition set_session :: "world \<Rightarrow> nat \<Rightarrow> SessionFS \<Rightarrow> world" where
  "set_session w a fs = w\<lparr>Sessions := (Sessions w)[a := fs]\<rparr>"

text \<open>
  The first part of \<^verbatim>\<open>WriteAt\<close>, under the lock of the overlay: the entry of the
  overlay at the writer's path (as given, not cleaned) or, when there is none or a
  tombstone, a new entry whose content is a fresh array holding a copy of the BaseFS
  content, with capacity for the write. \<open>n\<close> is the number of bytes to be written.
\<close>

definition WriteAt_entry :: "world \<Rightarrow> nat \<Rightarrow> string \<Rightarrow> nat \<Rightarrow> int \<Rightarrow> nat
    \<Rightarrow> (FileEntry \<times> world) option" where
  "WriteAt_entry w a path n off now =
     (let fs = Sessions w ! a in
      case map_of (overlay fs) path of
        Some (Some entry) \<Rightarrow> Some (entry, w)
      | _ \<Rightarrow>
          let b = map_of (BaseFS w) path;
              baseContent = (case b of Some be \<Rightarrow> Content be | None \<Rightarrow> nil_slice);
              mode = (case b of Some be \<Rightarrow> Mode be | None \<Rightarrow> m0644);
              uid = (case b of Some be \<Rightarrow> UID be | None \<Rightarrow> 0);
              gid = (case b of Some be \<Rightarrow> GID be | None \<Rightarrow> 0);
              initCap = (if wrap64 (off + int n) > int (len baseContent)
                         then wrap64 (off + int n) else int (len baseContent))
          in case make_slice (Heap w) (len baseContent) initCap of
               None \<Rightarrow> None
             | Some (newContent, h1) \<Rightarrow>
                 let h2 = copy_into h1 (ptr newContent) (len newContent) 0
                            (bytes_of (Heap w) baseContent);
                     entry = \<lparr>Name = path_Base path, IsDir = False, Content = newContent,
                              Mode = mode, ModTime = now, UID = uid, GID = gid, Nlink = 0\<rparr>
                 in Some (entry,
                          set_session (w\<lparr>Heap := h2\<rparr>) a
                            (fs\<lparr>overlay := AList.update path (Some entry) (overlay fs)\<rparr>)))"

text \<open>
  \<^verbatim>\<open>SFTPWriter.WriteAt\<close> for the writer of session \<open>a\<close> and path \<open>path\<close>: the bytes \<open>p\<close>
  at offset \<open>off\<close>. After the first part come the quota check, the growth of the array
  (doubling, capped at the quota), the extension of the length, and the copy of \<open>p\<close> into
  the entry's array in place.
\<close>

definition WriteAt :: "world \<Rightarrow> nat \<Rightarrow> string \<Rightarrow> string \<Rightarrow> int \<Rightarrow> nat
    \<Rightarrow> write_result \<times> world" where
  "WriteAt w a path p off now =
     (case WriteAt_entry w a path (length p) off now of
        None \<Rightarrow> (PanicMakeslice, w)
      | Some (entry, w1) \<Rightarrow>
          let end = wrap64 (off + int (length p)) in
          if end > int MaxFileSize then (QuotaExceeded, w1)
          else
            let c0 = Content entry;
                newCap0 = (if end < wrap64 (int (cap c0) * 2) then wrap64 (int (cap c0) * 2)
                           else end);
                newCap = (if newCap0 > int MaxFileSize then int MaxFileSize else newCap0);
                grown = (if end > int (cap c0)
                         then (case make_slice (Heap w1) (len c0) newCap of
                                 None \<Rightarrow> None
                               | Some (ns, h) \<Rightarrow>
                                   Some (ns, copy_into h (ptr ns) (len ns) 0
                                               (bytes_of (Heap w1) c0)))
                         else Some (c0, Heap w1))
            in case grown of
                 None \<Rightarrow> (PanicMakeslice, w1)
               | Some (c1, h1) \<Rightarrow>
                   if end > int (len c1) \<and> end > int (cap c1)
                   then (PanicSliceBounds, w1\<lparr>Heap := h1\<rparr>)
                   else
                     let c2 = (if end > int (len c1) then c1\<lparr>len := nat end\<rparr> else c1);
                         fs1 = Sessions w1 ! a;
                         put = (\<lambda>e h. set_session (w1\<lparr>Heap := h\<rparr>) a
                                  (fs1\<lparr>overlay := AList.update path (Some e) (overlay fs1)\<rparr>))
                     in if off < 0 \<or> off > int (len c2)
                        then (PanicSliceBounds, put (entry\<lparr>Content := c2\<rparr>) h1)
                        else (Written (length p),
                              put (entry\<lparr>Content := c2, ModTime := now\<rparr>)
                                (copy_into h1 (ptr c2) (len c2) (nat off) p)))"

text \<open>\<^verbatim>\<open>SFTPHandler.Filecmd\<close>: the request's method, path, target path and the file mode
  of its attributes.\<close>

record sftp_request =
  Method :: string
  Filepath :: string
  Target :: string
  AttrMode :: "32 word"

definition Filecmd :: "world \<Rightarrow> nat \<Rightarrow> sftp_request \<Rightarrow> nat \<Rightarrow> fs_error option \<times> world" where
  "Filecmd w a r now =
     (let fs = Sessions w ! a;
          done = (\<lambda>res. case res of Inl err \<Rightarrow> (Some err, w)
                               | Inr fs' \<Rightarrow> (None, set_session w a fs'))
      in if Method r = ''Setstat'' then
           (if AttrMode r \<noteq> 0 then done (Chmod (BaseFS w) fs (Filepath r) (AttrMode r) now)
            else (None, w))
         else if Method r = ''Rename'' then
           done (Rename (BaseFS w) fs (Filepath r) (Target r) now)
         else if Method r = ''Rmdir'' \<or> Method r = ''Remove'' then
           done (Remove fs (Filepath r))
         else if Method r = ''Mkdir'' then
           done (Mkdir fs (Filepath r) now)
         else (Some ErrSSHFxOpUnsupported, w))"

text \<open>\<^verbatim>\<open>SFTPHandler.Fileread\<close>: the bytes the reader returned will deliver.\<close>

definition Fileread :: "world \<Rightarrow> nat \<Rightarrow> string \<Rightarrow> fs_error + string" where
  "Fileread w a path =
     (case GetEntry (BaseFS w) (Sessions w ! a) path of
        None \<Rightarrow> Inl ErrNotExist
      | Some e \<Rightarrow> Inr (bytes_of (Heap w) (Content e)))"

section \<open>The Telnet front-end\<close>

text \<open>The bytes of the Telnet protocol: commands, options, subnegotiation codes.\<close>

abbreviation cmdSE :: char where "cmdSE \<equiv> CHR 0xF0"
abbreviation cmdNOP :: char where "cmdNOP \<equiv> CHR 0xF1"
abbreviation cmdGA :: char where "cmdGA \<equiv> CHR 0xF9"
abbreviation cmdSB :: char where "cmdSB \<equiv> CHR 0xFA"
abbreviation cmdWILL :: char where "cmdWILL \<equiv> CHR 0xFB"
abbreviation cmdWONT :: char where "cmdWONT \<equiv> CHR 0xFC"
abbreviation cmdDO :: char where "cmdDO \<equiv> CHR 0xFD"
abbreviation cmdDONT :: char where "cmdDONT \<equiv> CHR 0xFE"
abbreviation cmdIAC :: char where "cmdIAC \<equiv> CHR 0xFF"
abbreviation optEcho :: char where "optEcho \<equiv> CHR 0x01"
abbreviation optSGA :: char where "optSGA \<equiv> CHR 0x03"
abbreviation optTTYPE :: char where "optTTYPE \<equiv> CHR 0x18"
abbreviation optNAWS :: char where "optNAWS \<equiv> CHR 0x1F"
abbreviation optNewEnv :: char where "optNewEnv \<equiv> CHR 0x27"
abbreviation subIS :: char where "subIS \<equiv> CHR 0x00"
abbreviation subSEND :: char where "subSEND \<equiv> CHR 0x01"
abbreviation envVAR :: char where "envVAR \<equiv> CHR 0x00"
abbreviation envVALUE :: char where "envVALUE \<equiv> CHR 0x01"
abbreviation envUSERVAR :: char where "envUSERVAR \<equiv> CHR 0x03"
abbreviation CR :: char where "CR \<equiv> CHR 0x0D"
abbreviation LF :: char where "LF \<equiv> CHR 0x0A"

text \<open>
  The errors of the connection: the buffered reader has no byte to give (the peer closed
  the connection, or the read failed), or a write to the connection failed.
\<close>

datatype conn_error = ErrRead | ErrWrite

text \<open>
  \<^verbatim>\<open>TelnetStream\<close>. \<open>inbound\<close> is what the connection will still deliver to the buffered
  reader, \<open>outbound\<close> what has been written to the connection. Whether a write to the
  connection succeeds is not decided by the program: \<open>writesLeft\<close> is the number of calls
  of \<^verbatim>\<open>conn.Write\<close> that the connection will still accept, \<open>None\<close> for a connection that
  accepts every write. The terminal, once it exists (\<open>hasTerm\<close>), is present by its size,
  which is all the stream ever changes of it.
\<close>

record TelnetStream =
  inbound :: string
  outbound :: string
  writesLeft :: "nat option"
  hasTerm :: bool
  termWidth :: int
  termHeight :: int
  env :: "(string \<times> string) list"
  negotiatedOptions :: "char list"
  initialWidth :: int
  initialHeight :: int
  skipLF :: bool

text \<open>\<^verbatim>\<open>ts.conn.Write(bs)\<close>: the error, if any, and the stream afterwards.\<close>

definition conn_Write :: "TelnetStream \<Rightarrow> string \<Rightarrow> conn_error option \<times> TelnetStream" where
  "conn_Write ts bs =
     (case writesLeft ts of
        None \<Rightarrow> (None, ts\<lparr>outbound := outbound ts @ bs\<rparr>)
      | Some n \<Rightarrow>
          if n = 0 then (Some ErrWrite, ts)
          else (None, ts\<lparr>outbound := outbound ts @ bs, writesLeft := Some (n - 1)\<rparr>))"

definition sendTTYPErequest :: "TelnetStream \<Rightarrow> conn_error option \<times> TelnetStream" where
  "sendTTYPErequest ts = conn_Write ts [cmdIAC, cmdSB, optTTYPE, subSEND, cmdIAC, cmdSE]"

definition sendNEWENVrequest :: "TelnetStream \<Rightarrow> conn_error option \<times> TelnetStream" where
  "sendNEWENVrequest ts =
     conn_Write ts ([cmdIAC, cmdSB, optNewEnv, subSEND] @ [envVAR] @ ''USER'' @ [envVAR]
                    @ ''TERM'' @ [cmdIAC, cmdSE])"

text \<open>
  \<^verbatim>\<open>handleOption\<close>: the error it returns (\<open>None\<close> for \<^verbatim>\<open>nil\<close>) and the stream afterwards.
  A reply that cannot be written ends the function with the error of the write, before
  the option is recorded as negotiated.
\<close>

definition handleOption :: "TelnetStream \<Rightarrow> char \<Rightarrow> char \<Rightarrow> conn_error option \<times> TelnetStream" where
  "handleOption ts cmd opt =
     (if opt \<in> set (negotiatedOptions ts) then (None, ts)
      else if cmd = cmdWILL then
        (if opt = optTTYPE \<or> opt = optNAWS \<or> opt = optNewEnv then
           (case conn_Write ts [cmdIAC, cmdDO, opt] of
              (Some err, ts1) \<Rightarrow> (Some err, ts1)
            | (None, ts1) \<Rightarrow>
                (let ts2 = ts1\<lparr>negotiatedOptions := opt # negotiatedOptions ts1\<rparr>
                 in if opt = optTTYPE then sendTTYPErequest ts2
                    else if opt = optNewEnv then sendNEWENVrequest ts2
                    else (None, ts2)))
         else
           (case conn_Write ts [cmdIAC, cmdDONT, opt] of
              (Some err, ts1) \<Rightarrow> (Some err, ts1)
            | (None, ts1) \<Rightarrow> (None, ts1)))
      else if cmd = cmdDO then
        (if opt = optSGA \<or> opt = optEcho then
           (case conn_Write ts [cmdIAC, cmdWILL, opt] of
              (Some err, ts1) \<Rightarrow> (Some err, ts1)
            | (None, ts1) \<Rightarrow> (None, ts1\<lparr>negotiatedOptions := opt # negotiatedOptions ts1\<rparr>))
         else
           (case conn_Write ts [cmdIAC, cmdWONT, opt] of
              (Some err, ts1) \<Rightarrow> (Some err, ts1)
            | (None, ts1) \<Rightarrow> (None, ts1)))
      else (None, ts))"

text \<open>The loop over the variables of a NEW-ENVIRON reply: each variable is a type byte,
  the name up to the value marker, and the value up to the next type byte.\<close>

function parse_env :: "string \<Rightarrow> (string \<times> string) list \<Rightarrow> (string \<times> string) list" where
  "parse_env vars e =
     (case vars of
        [] \<Rightarrow> e
      | v # vars1 \<Rightarrow>
          if v = envVAR \<or> v = envUSERVAR then
            (let key = takeWhile (\<lambda>b. b \<noteq> envVALUE) vars1 in
             if length key = length vars1 then e
             else
               let vars2 = drop (length key + 1) vars1;
                   val = takeWhile (\<lambda>b. b \<noteq> envVAR \<and> b \<noteq> envUSERVAR) vars2;
                   vars3 = drop (length val) vars2
               in parse_env vars3 (if key \<noteq> [] then AList.update key val e else e))
          else e)"
  by pat_completeness auto
termination
  by (relation "measure (\<lambda>(vars, e). length vars)") auto

declare parse_env.simps [simp del]

definition handleSubnegotiation :: "TelnetStream \<Rightarrow> string \<Rightarrow> TelnetStream" where
  "handleSubnegotiation ts data =
     (case data of
        [] \<Rightarrow> ts
      | opt # payload \<Rightarrow>
          if opt = optNAWS then
            (if length payload \<ge> 4 then
               (let w = (of_char (payload ! 0) :: int) * 256 + of_char (payload ! 1);
                    h = (of_char (payload ! 2) :: int) * 256 + of_char (payload ! 3)
                in if hasTerm ts then ts\<lparr>termWidth := w, termHeight := h\<rparr>
                   else ts\<lparr>initialWidth := w, initialHeight := h\<rparr>)
             else ts)
          else if opt = optTTYPE then
            (if length payload \<ge> 2 \<and> payload ! 0 = subIS
             then ts\<lparr>env := AList.update ''TERM'' (tl payload) (env ts)\<rparr>
             else ts)
          else if opt = optNewEnv then
            (if length payload \<ge> 1 \<and> payload ! 0 = subIS
             then ts\<lparr>env := parse_env (tl payload) (env ts)\<rparr>
             else ts)
          else ts)"

text \<open>The inner loop of \<^verbatim>\<open>Read\<close> for a subnegotiation: bytes are collected up to
  \<^verbatim>\<open>IAC SE\<close>; an \<^verbatim>\<open>IAC\<close> followed by another byte is kept with that byte. The result is
  the collected bytes and the rest of the input, \<open>None\<close> when the input ends first.\<close>

fun read_sb :: "string \<Rightarrow> string \<Rightarrow> (string \<times> string) option" where
  "read_sb subBuf [] = None"
| "read_sb subBuf [sb] = (if sb = cmdIAC then None else read_sb (subBuf @ [sb]) [])"
| "read_sb subBuf (sb # next # rest) =
     (if sb = cmdIAC then
        (if next = cmdSE then Some (subBuf, rest)
         else read_sb (subBuf @ [sb, next]) rest)
      else read_sb (subBuf @ [sb]) (next # rest))"

lemma read_sb_shorter: "read_sb subBuf xs = Some (buf, rest) \<Longrightarrow> length rest < length xs"
  by (induction subBuf xs rule: read_sb.induct) (auto split: if_splits)

lemma inbound_conn_Write: "inbound (snd (conn_Write ts bs)) = inbound ts"
  by (simp add: conn_Write_def split: option.splits)

lemma inbound_handleOption: "inbound (snd (handleOption ts cmd opt)) = inbound ts"
  by (auto simp: handleOption_def conn_Write_def sendTTYPErequest_def sendNEWENVrequest_def
      Let_def split: option.splits)

lemma inbound_handleSubnegotiation: "inbound (handleSubnegotiation ts data) = inbound ts"
  by (simp add: handleSubnegotiation_def Let_def split: list.splits)

text \<open>
  \<^verbatim>\<open>TelnetStream.Read\<close>: one call delivers one byte of the application stream (\<open>Inr\<close>) or
  returns an error (\<open>Inl\<close>): the error of the reader when the input has ended, or the
  error of \<open>handleOption\<close> when a reply to an option command could not be written. Each
  branch gives the stream as it is when the call returns or goes round the loop again:
  the bytes read so far are gone from \<open>inbound\<close>, and \<open>skipLF\<close> has been reset.
\<close>

function Read :: "TelnetStream \<Rightarrow> (conn_error + char) \<times> TelnetStream" where
  "Read ts =
     (case inbound ts of
        [] \<Rightarrow> (Inl ErrRead, ts)
      | b # rest \<Rightarrow>
          if skipLF ts \<and> b = LF then Read (ts\<lparr>inbound := rest, skipLF := False\<rparr>)
          else if b \<noteq> cmdIAC then
            (if b = CR then (Inr LF, ts\<lparr>inbound := rest, skipLF := True\<rparr>)
             else (Inr b, ts\<lparr>inbound := rest, skipLF := False\<rparr>))
          else
            (case rest of
               [] \<Rightarrow> (Inl ErrRead, ts\<lparr>inbound := [], skipLF := False\<rparr>)
             | cmd # rest2 \<Rightarrow>
                 if cmd = cmdIAC then (Inr cmdIAC, ts\<lparr>inbound := rest2, skipLF := False\<rparr>)
                 else if cmd = cmdWILL \<or> cmd = cmdWONT \<or> cmd = cmdDO \<or> cmd = cmdDONT then
                   (case rest2 of
                      [] \<Rightarrow> (Inl ErrRead, ts\<lparr>inbound := [], skipLF := False\<rparr>)
                    | opt # rest3 \<Rightarrow>
                        (case handleOption (ts\<lparr>inbound := rest3, skipLF := False\<rparr>) cmd opt of
                           (Some err, ts2) \<Rightarrow> (Inl err, ts2)
                         | (None, ts2) \<Rightarrow> Read ts2))
                 else if cmd = cmdSB then
                   (case read_sb [] rest2 of
                      None \<Rightarrow> (Inl ErrRead, ts\<lparr>inbound := [], skipLF := False\<rparr>)
                    | Some (subBuf, rest3) \<Rightarrow>
                        Read (handleSubnegotiation (ts\<lparr>inbound := rest3, skipLF := False\<rparr>)
                                subBuf))
                 else Read (ts\<lparr>inbound := rest2, skipLF := False\<rparr>)))"
  by pat_completeness auto
termination
proof (relation "measure (\<lambda>ts. length (inbound ts))", goal_cases)
  case 1
  show ?case
    by simp
next
  case (2 ts b rest)
  then show ?case
    by simp
next
  case (3 ts b rest cmd rest2 ob rest3 x y)
  have "inbound y = inbound (snd (handleOption (ts\<lparr>inbound := rest3, skipLF := False\<rparr>) cmd ob))"
    using 3 by (metis snd_conv)
  then show ?case
    using 3 by (simp add: inbound_handleOption)
next
  case (4 ts b rest cmd rest2 x subBuf rest3)
  then show ?case
    by (auto simp: inbound_handleSubnegotiation dest: read_sb_shorter)
next
  case (5 ts b rest cmd rest2)
  then show ?case
    by simp
qed

declare Read.simps [simp del]

text \<open>
  The application stream in the words of the (amended) specification, as a function of
  the inbound bytes alone; \<open>skip\<close> says that the previous byte was a \<^verbatim>\<open>CR\<close>. A \<^verbatim>\<open>CR\<close> is
  delivered as \<^verbatim>\<open>LF\<close>, and an \<^verbatim>\<open>LF\<close> that follows it at once is dropped; \<^verbatim>\<open>IAC IAC\<close> is
  one byte \<^verbatim>\<open>0xFF\<close>; an option command takes three bytes and a subnegotiation all bytes
  up to \<^verbatim>\<open>IAC SE\<close>, any other command two, and none of them delivers anything; every
  other byte is delivered as it is. The stream ends where the input ends inside a
  command.
\<close>

function telnet_decode :: "bool \<Rightarrow> string \<Rightarrow> string" where
  "telnet_decode skip [] = []"
| "telnet_decode skip (b # rest) =
     (if skip \<and> b = LF then telnet_decode False rest
      else if b = CR then LF # telnet_decode True rest
      else if b \<noteq> cmdIAC then b # telnet_decode False rest
      else
        (case rest of
           [] \<Rightarrow> []
         | cmd # rest2 \<Rightarrow>
             if cmd = cmdIAC then cmdIAC # telnet_decode False rest2
             else if cmd = cmdWILL \<or> cmd = cmdWONT \<or> cmd = cmdDO \<or> cmd = cmdDONT then
               (case rest2 of [] \<Rightarrow> [] | opt # rest3 \<Rightarrow> telnet_decode False rest3)
             else if cmd = cmdSB then
               (case read_sb [] rest2 of
                  None \<Rightarrow> []
                | Some (subBuf, rest3) \<Rightarrow> telnet_decode False rest3)
             else telnet_decode False rest2))"
  by pat_completeness auto
termination
  by (relation "measure (\<lambda>(skip, xs). length xs)") (auto dest!: read_sb_shorter)

declare telnet_decode.simps(2) [simp del]

text \<open>What \<open>handleOption\<close> and \<open>handleSubnegotiation\<close> leave as they are.\<close>

lemma skipLF_handleOption: "skipLF (snd (handleOption ts cmd opt)) = skipLF ts"
  by (auto simp: handleOption_def conn_Write_def sendTTYPErequest_def sendNEWENVrequest_def
      Let_def split: option.splits)

lemma skipLF_handleSubnegotiation: "skipLF (handleSubnegotiation ts data) = skipLF ts"
  by (simp add: handleSubnegotiation_def Let_def split: list.splits)

lemma writesLeft_handleSubnegotiation:
  "writesLeft (handleSubnegotiation ts data) = writesLeft ts"
  by (simp add: handleSubnegotiation_def Let_def split: list.splits)

text \<open>On a connection that accepts every write, \<open>handleOption\<close> returns no error.\<close>

lemma handleOption_no_error:
  "writesLeft ts = None \<Longrightarrow>
     fst (handleOption ts cmd opt) = None \<and> writesLeft (snd (handleOption ts cmd opt)) = None"
  by (simp add: handleOption_def conn_Write_def sendTTYPErequest_def sendNEWENVrequest_def
      Let_def)

text \<open>What \<open>Read\<close> does, case by case of the bytes at the head of the input.\<close>

lemma Read_Nil: "inbound ts = [] \<Longrightarrow> Read ts = (Inl ErrRead, ts)"
  by (subst Read.simps) simp

lemma Read_skip:
  "inbound ts = LF # rest \<Longrightarrow> skipLF ts \<Longrightarrow>
     Read ts = Read (ts\<lparr>inbound := rest, skipLF := False\<rparr>)"
  by (subst Read.simps) simp

lemma Read_CR:
  "inbound ts = CR # rest \<Longrightarrow> Read ts = (Inr LF, ts\<lparr>inbound := rest, skipLF := True\<rparr>)"
  by (subst Read.simps) simp

lemma Read_plain:
  "inbound ts = b # rest \<Longrightarrow> \<not> (skipLF ts \<and> b = LF) \<Longrightarrow> b \<noteq> CR \<Longrightarrow> b \<noteq> cmdIAC \<Longrightarrow>
     Read ts = (Inr b, ts\<lparr>inbound := rest, skipLF := False\<rparr>)"
  by (subst Read.simps) auto

lemma Read_IAC_end:
  "inbound ts = [cmdIAC] \<Longrightarrow> Read ts = (Inl ErrRead, ts\<lparr>inbound := [], skipLF := False\<rparr>)"
  by (subst Read.simps) simp

lemma Read_IAC_IAC:
  "inbound ts = cmdIAC # cmdIAC # rest \<Longrightarrow>
     Read ts = (Inr cmdIAC, ts\<lparr>inbound := rest, skipLF := False\<rparr>)"
  by (subst Read.simps) simp

lemma Read_opt_end:
  "inbound ts = [cmdIAC, cmd] \<Longrightarrow> cmd = cmdWILL \<or> cmd = cmdWONT \<or> cmd = cmdDO \<or> cmd = cmdDONT \<Longrightarrow>
     Read ts = (Inl ErrRead, ts\<lparr>inbound := [], skipLF := False\<rparr>)"
  by (subst Read.simps) auto

lemma Read_opt_error:
  "inbound ts = cmdIAC # cmd # opt # rest \<Longrightarrow>
   cmd = cmdWILL \<or> cmd = cmdWONT \<or> cmd = cmdDO \<or> cmd = cmdDONT \<Longrightarrow>
   handleOption (ts\<lparr>inbound := rest, skipLF := False\<rparr>) cmd opt = (Some err, ts2) \<Longrightarrow>
     Read ts = (Inl err, ts2)"
  by (subst Read.simps) auto

lemma Read_opt:
  "inbound ts = cmdIAC # cmd # opt # rest \<Longrightarrow>
   cmd = cmdWILL \<or> cmd = cmdWONT \<or> cmd = cmdDO \<or> cmd = cmdDONT \<Longrightarrow>
   handleOption (ts\<lparr>inbound := rest, skipLF := False\<rparr>) cmd opt = (None, ts2) \<Longrightarrow>
     Read ts = Read ts2"
  by (subst Read.simps) auto

lemma Read_SB_end:
  "inbound ts = cmdIAC # cmdSB # xs \<Longrightarrow> read_sb [] xs = None \<Longrightarrow>
     Read ts = (Inl ErrRead, ts\<lparr>inbound := [], skipLF := False\<rparr>)"
  by (subst Read.simps) simp

lemma Read_SB:
  "inbound ts = cmdIAC # cmdSB # xs \<Longrightarrow> read_sb [] xs = Some (subBuf, rest) \<Longrightarrow>
     Read ts = Read (handleSubnegotiation (ts\<lparr>inbound := rest, skipLF := False\<rparr>) subBuf)"
  by (subst Read.simps) simp

lemma Read_other:
  "inbound ts = cmdIAC # cmd # rest \<Longrightarrow> cmd \<noteq> cmdIAC \<Longrightarrow> cmd \<noteq> cmdSB \<Longrightarrow>
   \<not> (cmd = cmdWILL \<or> cmd = cmdWONT \<or> cmd = cmdDO \<or> cmd = cmdDONT) \<Longrightarrow>
     Read ts = Read (ts\<lparr>inbound := rest, skipLF := False\<rparr>)"
  by (subst Read.simps) simp

text \<open>
  One call of \<open>Read\<close> against \<open>telnet_decode\<close>. A byte delivered is the first byte of
  the decoded input, the stream left decodes to the rest, and input has been consumed.
  An error on a connection that accepts every write means that the decoded input is
  empty.
\<close>

definition Read_ok :: "TelnetStream \<Rightarrow> (conn_error + char) \<Rightarrow> TelnetStream \<Rightarrow> bool" where
  "Read_ok ts r ts' =
     (case r of
        Inr b \<Rightarrow>
          telnet_decode (skipLF ts) (inbound ts) = b # telnet_decode (skipLF ts') (inbound ts')
          \<and> length (inbound ts') < length (inbound ts)
          \<and> (writesLeft ts = None \<longrightarrow> writesLeft ts' = None)
      | Inl e \<Rightarrow> writesLeft ts = None \<longrightarrow> telnet_decode (skipLF ts) (inbound ts) = [])"

lemma Read_ok_step:
  assumes "Read ts = Read ts2" and "length (inbound ts2) < length (inbound ts)"
    and "telnet_decode (skipLF ts) (inbound ts) = telnet_decode (skipLF ts2) (inbound ts2)"
    and "writesLeft ts = None \<longrightarrow> writesLeft ts2 = None"
    and "\<And>r ts'. Read ts2 = (r, ts') \<Longrightarrow> Read_ok ts2 r ts'"
    and "Read ts = (r, ts')"
  shows "Read_ok ts r ts'"
proof -
  have "Read ts2 = (r, ts')"
    using assms(1,6) by simp
  from assms(5)[OF this] show ?thesis
    using assms(2,3,4) by (auto simp: Read_ok_def split: sum.splits)
qed

lemma Read_decode: "Read ts = (r, ts') \<Longrightarrow> Read_ok ts r ts'"
proof (induction "length (inbound ts)" arbitrary: ts r ts' rule: less_induct)
  case less
  note IH = less.hyps
  note rd = less.prems
  show ?case
  proof (cases "inbound ts")
    case Nil
    then show ?thesis
      using rd by (auto simp: Read_Nil Read_ok_def)
  next
    case (Cons b rest)
    show ?thesis
    proof (cases "skipLF ts \<and> b = LF")
      case True
      let ?ts2 = "ts\<lparr>inbound := rest, skipLF := False\<rparr>"
      have e: "Read ts = Read ?ts2"
        using Cons True by (simp add: Read_skip)
      have l: "length (inbound ?ts2) < length (inbound ts)"
        using Cons by simp
      have d: "telnet_decode (skipLF ts) (inbound ts)
          = telnet_decode (skipLF ?ts2) (inbound ?ts2)"
        using Cons True by (simp add: telnet_decode.simps(2))
      have w: "writesLeft ts = None \<longrightarrow> writesLeft ?ts2 = None"
        by simp
      show ?thesis
        by (rule Read_ok_step[OF e l d w IH[OF l] rd])
    next
      case noskip: False
      show ?thesis
      proof (cases "b = cmdIAC")
        case False
        then show ?thesis
          using Cons noskip rd
          by (cases "b = CR") (auto simp: Read_CR Read_plain telnet_decode.simps(2) Read_ok_def)
      next
        case True
        show ?thesis
        proof (cases rest)
          case Nil
          then show ?thesis
            using Cons True rd by (auto simp: Read_IAC_end telnet_decode.simps(2) Read_ok_def)
        next
          case (Cons cmd rest2)
          note c2 = Cons
          have inb: "inbound ts = cmdIAC # cmd # rest2"
            using \<open>inbound ts = b # rest\<close> True c2 by simp
          consider (iac) "cmd = cmdIAC"
            | (opt) "cmd = cmdWILL \<or> cmd = cmdWONT \<or> cmd = cmdDO \<or> cmd = cmdDONT"
            | (sb) "cmd = cmdSB"
            | (other) "cmd \<noteq> cmdIAC" "cmd \<noteq> cmdSB"
                "\<not> (cmd = cmdWILL \<or> cmd = cmdWONT \<or> cmd = cmdDO \<or> cmd = cmdDONT)"
            by blast
          then show ?thesis
          proof cases
            case iac
            then show ?thesis
              using inb rd by (auto simp: Read_IAC_IAC telnet_decode.simps(2) Read_ok_def)
          next
            case opt
            show ?thesis
            proof (cases rest2)
              case Nil
              then show ?thesis
                using inb opt rd Read_opt_end[of ts cmd]
                by (auto simp: telnet_decode.simps(2) Read_ok_def)
            next
              case (Cons ob rest3)
              let ?ts1 = "ts\<lparr>inbound := rest3, skipLF := False\<rparr>"
              obtain er ts2 where ho: "handleOption ?ts1 cmd ob = (er, ts2)"
                by (cases "handleOption ?ts1 cmd ob") auto
              have i2: "inbound ts2 = rest3"
                using inbound_handleOption[of ?ts1 cmd ob] ho by simp
              have s2: "skipLF ts2 = False"
                using skipLF_handleOption[of ?ts1 cmd ob] ho by simp
              have w2: "writesLeft ts = None \<longrightarrow> er = None \<and> writesLeft ts2 = None"
                using handleOption_no_error[of ?ts1 cmd ob] ho by simp
              show ?thesis
              proof (cases er)
                case (Some err)
                have "Read ts = (Inl err, ts2)"
                  using inb Cons opt ho Some by (simp add: Read_opt_error)
                then show ?thesis
                  using rd w2 Some by (auto simp: Read_ok_def)
              next
                case None
                have e: "Read ts = Read ts2"
                  using inb Cons opt ho None by (simp add: Read_opt)
                have l: "length (inbound ts2) < length (inbound ts)"
                  using inb Cons i2 by simp
                have d: "telnet_decode (skipLF ts) (inbound ts)
                    = telnet_decode (skipLF ts2) (inbound ts2)"
                  using inb Cons opt i2 s2 by (auto simp: telnet_decode.simps(2))
                have w: "writesLeft ts = None \<longrightarrow> writesLeft ts2 = None"
                  using w2 by simp
                show ?thesis
                  by (rule Read_ok_step[OF e l d w IH[OF l] rd])
              qed
            qed
          next
            case sb
            show ?thesis
            proof (cases "read_sb [] rest2")
              case None
              then show ?thesis
                using inb sb rd by (auto simp: Read_SB_end telnet_decode.simps(2) Read_ok_def)
            next
              case (Some br)
              obtain subBuf rest3 where br: "br = (subBuf, rest3)"
                by (cases br) auto
              let ?ts2 = "handleSubnegotiation (ts\<lparr>inbound := rest3, skipLF := False\<rparr>) subBuf"
              have sh: "length rest3 < length rest2"
                using Some br read_sb_shorter by blast
              have e: "Read ts = Read ?ts2"
                using inb sb Some br by (simp add: Read_SB)
              have l: "length (inbound ?ts2) < length (inbound ts)"
                using inb sh by (simp add: inbound_handleSubnegotiation)
              have d: "telnet_decode (skipLF ts) (inbound ts)
                  = telnet_decode (skipLF ?ts2) (inbound ?ts2)"
                using inb sb Some br
                by (simp add: telnet_decode.simps(2) inbound_handleSubnegotiation
                    skipLF_handleSubnegotiation)
              have w: "writesLeft ts = None \<longrightarrow> writesLeft ?ts2 = None"
                by (simp add: writesLeft_handleSubnegotiation)
              show ?thesis
                by (rule Read_ok_step[OF e l d w IH[OF l] rd])
            qed
          next
            case other
            let ?ts2 = "ts\<lparr>inbound := rest2, skipLF := False\<rparr>"
            have e: "Read ts = Read ?ts2"
              using inb other by (simp add: Read_other)
            have l: "length (inbound ?ts2) < length (inbound ts)"
              using inb by simp
            have d: "telnet_decode (skipLF ts) (inbound ts)
                = telnet_decode (skipLF ?ts2) (inbound ?ts2)"
              using inb other by (simp add: telnet_decode.simps(2))
            have w: "writesLeft ts = None \<longrightarrow> writesLeft ?ts2 = None"
              by simp
            show ?thesis
              by (rule Read_ok_step[OF e l d w IH[OF l] rd])
          qed
        qed
      qed
    qed
  qed
qed

lemma Read_consumes:
  "Read ts = (Inr b, ts') \<Longrightarrow> length (inbound ts') < length (inbound ts)"
  using Read_decode[of ts "Inr b" ts'] by (simp add: Read_ok_def)

text \<open>The application stream of a Telnet connection: the bytes that successive calls of
  \<open>Read\<close> deliver until it returns an error (\<^verbatim>\<open>readLine\<close> at login and the terminal's
  buffered reader both call \<open>Read\<close> again and again, and stop at the first error).\<close>

function app_stream :: "TelnetStream \<Rightarrow> string" where
  "app_stream ts = (case Read ts of (Inl e, ts') \<Rightarrow> [] | (Inr b, ts') \<Rightarrow> b # app_stream ts')"
  by pat_completeness auto
termination
  by (relation "measure (\<lambda>ts. length (inbound ts))") (auto dest: Read_consumes[OF sym])

declare app_stream.simps [simp del]

lemma app_stream_prefix: "prefix (app_stream ts) (telnet_decode (skipLF ts) (inbound ts))"
proof (induction ts rule: app_stream.induct)
  case (1 ts)
  obtain r ts' where r: "Read ts = (r, ts')"
    by (cases "Read ts") auto
  show ?case
  proof (cases r)
    case (Inl e)
    then show ?thesis
      using r by (subst app_stream.simps) simp
  next
    case (Inr b)
    then show ?thesis
      using r Read_decode[OF r] "1.IH"[OF r[symmetric] Inr]
      by (subst app_stream.simps) (simp add: Read_ok_def)
  qed
qed

lemma app_stream_decode:
  "writesLeft ts = None \<Longrightarrow> app_stream ts = telnet_decode (skipLF ts) (inbound ts)"
proof (induction ts rule: app_stream.induct)
  case (1 ts)
  obtain r ts' where r: "Read ts = (r, ts')"
    by (cases "Read ts") auto
  show ?case
  proof (cases r)
    case (Inl e)
    then show ?thesis
      using r Read_decode[OF r] "1.prems" by (subst app_stream.simps) (simp add: Read_ok_def)
  next
    case (Inr b)
    have w: "writesLeft ts' = None"
      using Read_decode[OF r] Inr "1.prems" by (simp add: Read_ok_def)
    show ?thesis
      using r Inr Read_decode[OF r] "1.IH"[OF r[symmetric] Inr w]
      by (subst app_stream.simps) (simp add: Read_ok_def)
  qed
qed

text \<open>\<^verbatim>\<open>TelnetStream.Write\<close>: every \<^verbatim>\<open>IAC\<close> byte is doubled.\<close>

definition Telnet_Write :: "TelnetStream \<Rightarrow> string \<Rightarrow> conn_error option \<times> TelnetStream" where
  "Telnet_Write ts p = conn_Write ts (concat (map (\<lambda>b. if b = cmdIAC then [cmdIAC, b] else [b]) p))"

text \<open>The stream at the start of \<^verbatim>\<open>handleTelnetConn\<close>, for a connection that will deliver
  the given bytes and accept the given number of writes.\<close>

definition newTelnetStream :: "string \<Rightarrow> nat option \<Rightarrow> TelnetStream" where
  "newTelnetStream bs wl =
     \<lparr>inbound = bs, outbound = [], writesLeft = wl, hasTerm = False, termWidth = 0,
      termHeight = 0, env = [(''TERM'', ''vt100''), (''SHELL'', ''/bin/bash'')],
      negotiatedOptions = [], initialWidth = 80, initialHeight = 24, skipLF = False\<rparr>"

section \<open>Facts about the base filesystem\<close>

lemma add_step:
  "add t (h, b) (p, c, m, u, g) =
     (if c = [] then h else h @ [c],
      AList.update p
        \<lparr>Name = path_Base p, IsDir = False,
         Content = (if c = [] then \<lparr>ptr = 0, len = 0, cap = 0\<rparr>
                    else \<lparr>ptr = length h, len = length c, cap = length c\<rparr>),
         Mode = m, ModTime = t, UID = u, GID = g, Nlink = 1\<rparr> b)"
  by (simp add: add_def alloc_bytes_def)

text \<open>The heap after a run of \<open>add\<close>: one new array for each non-empty content, in order.\<close>

lemma fst_foldl_add:
  "fst (foldl (add t) (h, b) fs) = h @ filter (\<lambda>c. c \<noteq> []) (map (\<lambda>f. fst (snd f)) fs)"
proof (induction fs arbitrary: h b)
  case Nil
  then show ?case by simp
next
  case (Cons f fs)
  obtain p c m u g where f: "f = (p, c, m, u, g)"
    by (cases f) auto
  show ?case
    by (simp add: f add_step Cons.IH)
qed

lemma map_of_foldl_add_notin:
  "p \<notin> set (map fst fs) \<Longrightarrow> map_of (snd (foldl (add t) (h, b) fs)) p = map_of b p"
proof (induction fs arbitrary: h b)
  case Nil
  then show ?case by simp
next
  case (Cons f fs)
  obtain p' c m u g where f: "f = (p', c, m, u, g)"
    by (cases f) auto
  from Cons.prems have ne: "p' \<noteq> p" and rest: "p \<notin> set (map fst fs)"
    by (auto simp: f)
  show ?case
    using ne by (simp add: f add_step Cons.IH[OF rest] update_conv')
qed

text \<open>The entry of a path whose last \<open>add\<close> is known: the content lies where the heap
  ended when that \<open>add\<close> ran.\<close>

lemma map_of_foldl_add_in:
  assumes "fs = pre @ (p, c, m, u, g) # post" and "p \<notin> set (map fst post)"
  shows "map_of (snd (foldl (add t) (h, b) fs)) p =
     Some \<lparr>Name = path_Base p, IsDir = False,
           Content = fst (alloc_bytes
                            (h @ filter (\<lambda>c. c \<noteq> []) (map (\<lambda>f. fst (snd f)) pre)) c),
           Mode = m, ModTime = t, UID = u, GID = g, Nlink = 1\<rparr>"
proof -
  obtain h1 b1 where s1: "foldl (add t) (h, b) pre = (h1, b1)"
    by (cases "foldl (add t) (h, b) pre") auto
  have h1: "h1 = h @ filter (\<lambda>c. c \<noteq> []) (map (\<lambda>f. fst (snd f)) pre)"
    using fst_foldl_add[of t h b pre] s1 by simp
  obtain h2 b2 where s2: "add t (h1, b1) (p, c, m, u, g) = (h2, b2)"
    by (cases "add t (h1, b1) (p, c, m, u, g)") auto
  have b2: "map_of b2 p =
      Some \<lparr>Name = path_Base p, IsDir = False, Content = fst (alloc_bytes h1 c),
            Mode = m, ModTime = t, UID = u, GID = g, Nlink = 1\<rparr>"
    using s2 by (auto simp: add_step alloc_bytes_def update_conv')
  have "foldl (add t) (h, b) fs = foldl (add t) (h2, b2) post"
    by (simp add: assms(1) s1 s2)
  then show ?thesis
    using map_of_foldl_add_notin[OF assms(2), of t h2 b2] b2 h1 by simp
qed

lemma map_of_foldl_add_dir:
  "map_of (foldl (add_dir t) b ds) p =
     (if p \<in> set ds
      then Some \<lparr>Name = path_Base p, IsDir = True, Content = nil_slice,
                 Mode = m0755 OR ModeDir, ModTime = t, UID = 0, GID = 0, Nlink = 2\<rparr>
      else map_of b p)"
proof (induction ds arbitrary: b)
  case Nil
  then show ?case by simp
next
  case (Cons d ds)
  have "map_of (add_dir t b d) p =
      (if p = d
       then Some \<lparr>Name = path_Base p, IsDir = True, Content = nil_slice,
                  Mode = m0755 OR ModeDir, ModTime = t, UID = 0, GID = 0, Nlink = 2\<rparr>
       else map_of b p)"
    by (simp add: add_dir_def update_conv')
  then show ?case
    using Cons.IH[of "add_dir t b d"] by auto
qed

text \<open>Every command stub lies under \<^verbatim>\<open>/bin/\<close> or \<^verbatim>\<open>/usr/bin/\<close>.\<close>

lemma bin_files_keys:
  "p \<in> set (map fst bin_files) \<Longrightarrow> take 5 p = ''/bin/'' \<or> take 9 p = ''/usr/bin/''"
  by (auto simp: bin_files_def)

lemma initBaseFS_heap:
  "fst (initBaseFS t) =
     [] # filter (\<lambda>c. c \<noteq> []) (map (\<lambda>f. fst (snd f)) files)
        @ filter (\<lambda>c. c \<noteq> []) (map (\<lambda>f. fst (snd f)) bin_files)"
  unfolding initBaseFS_def fst_foldl_add empty_heap_def by simp

lemma files_keys:
  "map fst files =
     [''/etc/passwd'', ''/etc/group'', ''/etc/hostname'', ''/etc/os-release'', ''/etc/issue'',
      ''/etc/shadow'', ''/root/.bashrc'', ''/etc/hosts'', ''/etc/resolv.conf'', ''/etc/fstab'',
      ''/proc/version'', ''/proc/cpuinfo'', ''/proc/meminfo'', ''/proc/uptime'',
      ''/proc/loadavg'', ''/sys/class/net/eth0/address'', ''/dev/null'', ''/dev/zero'',
      ''/dev/random'', ''/dev/urandom'']"
  by (simp add: files_def)

text \<open>A path that is neither a file of \<open>files\<close> nor under a command directory is in
  BaseFS exactly when it is one of the directories.\<close>

lemma initBaseFS_other:
  assumes "p \<notin> set (map fst files)" and "take 5 p \<noteq> ''/bin/''" and "take 9 p \<noteq> ''/usr/bin/''"
  shows "map_of (snd (initBaseFS t)) p =
     (if p \<in> set dirs
      then Some \<lparr>Name = path_Base p, IsDir = True, Content = nil_slice,
                 Mode = m0755 OR ModeDir, ModTime = t, UID = 0, GID = 0, Nlink = 2\<rparr>
      else None)"
proof -
  have "p \<notin> set (map fst bin_files)"
    using bin_files_keys[of p] assms(2,3) by blast
  then have notin: "p \<notin> set (map fst (files @ bin_files))"
    using assms(1) by simp
  show ?thesis
    unfolding initBaseFS_def map_of_foldl_add_notin[OF notin] map_of_foldl_add_dir
    by simp
qed

text \<open>A file of \<open>files\<close>, given the files added before and after it.\<close>

lemma initBaseFS_file:
  assumes "files = pre @ (p, c, m, u, g) # post" and "p \<notin> set (map fst post)"
    and "take 5 p \<noteq> ''/bin/''" and "take 9 p \<noteq> ''/usr/bin/''"
  shows "map_of (snd (initBaseFS t)) p =
     Some \<lparr>Name = path_Base p, IsDir = False,
           Content = fst (alloc_bytes
                            ([] # filter (\<lambda>c. c \<noteq> []) (map (\<lambda>f. fst (snd f)) pre)) c),
           Mode = m, ModTime = t, UID = u, GID = g, Nlink = 1\<rparr>"
proof -
  have "p \<notin> set (map fst bin_files)"
    using bin_files_keys[of p] assms(3,4) by blast
  then have notin: "p \<notin> set (map fst (post @ bin_files))"
    using assms(2) by simp
  have split: "files @ bin_files = pre @ (p, c, m, u, g) # (post @ bin_files)"
    by (simp add: assms(1))
  show ?thesis
    unfolding initBaseFS_def
    by (simp only: map_of_foldl_add_in[OF split notin] empty_heap_def append_Cons append_Nil)
qed

lemma initBaseFS_passwd:
  "map_of (snd (initBaseFS t)) ''/etc/passwd'' =
     Some \<lparr>Name = ''passwd'', IsDir = False, Content = \<lparr>ptr = 1, len = 566, cap = 566\<rparr>,
           Mode = m0644, ModTime = t, UID = 0, GID = 0, Nlink = 1\<rparr>"
proof -
  have split: "files = take 0 files @ (''/etc/passwd'', passwdContent, m0644, 0, 0) # drop 1 files"
    by (simp add: files_def)
  have notin: "''/etc/passwd'' \<notin> set (map fst (drop 1 files))"
    by (simp add: drop_map[symmetric] files_keys)
  have e: "map_of (snd (initBaseFS t)) ''/etc/passwd'' =
      Some \<lparr>Name = path_Base ''/etc/passwd'', IsDir = False,
            Content = fst (alloc_bytes
               ([] # filter (\<lambda>c. c \<noteq> []) (map (\<lambda>f. fst (snd f)) (take 0 files)))
               passwdContent),
            Mode = m0644, ModTime = t, UID = 0, GID = 0, Nlink = 1\<rparr>"
    by (rule initBaseFS_file[OF split notin]) simp_all
  have c: "fst (alloc_bytes
               ([] # filter (\<lambda>c. c \<noteq> []) (map (\<lambda>f. fst (snd f)) (take 0 files)))
               passwdContent) = \<lparr>ptr = 1, len = 566, cap = 566\<rparr>"
    by (simp add: alloc_bytes_def passwdContent_def)
  have n: "path_Base ''/etc/passwd'' = ''passwd''"
    by (simp add: path_Base_def path_Split_def)
  show ?thesis
    unfolding e c n by (rule refl)
qed

lemma initBaseFS_heap_passwd: "fst (initBaseFS t) ! 1 = passwdContent"
  by (simp add: initBaseFS_heap files_def passwdContent_def)

lemma initBaseFS_hosts:
  "map_of (snd (initBaseFS t)) ''/etc/hosts'' =
     Some \<lparr>Name = ''hosts'', IsDir = False, Content = \<lparr>ptr = 8, len = 44, cap = 44\<rparr>,
           Mode = m0644, ModTime = t, UID = 0, GID = 0, Nlink = 1\<rparr>"
proof -
  have split: "files = take 7 files
      @ (''/etc/hosts'', ''127.0.0.1 localhost\<newline>127.0.1.1 ubuntu-server\<newline>'', m0644, 0, 0)
      # drop 8 files"
    by (simp add: files_def)
  have notin: "''/etc/hosts'' \<notin> set (map fst (drop 8 files))"
    by (simp add: drop_map[symmetric] files_keys)
  have e: "map_of (snd (initBaseFS t)) ''/etc/hosts'' =
      Some \<lparr>Name = path_Base ''/etc/hosts'', IsDir = False,
            Content = fst (alloc_bytes
               ([] # filter (\<lambda>c. c \<noteq> []) (map (\<lambda>f. fst (snd f)) (take 7 files)))
               ''127.0.0.1 localhost\<newline>127.0.1.1 ubuntu-server\<newline>''),
            Mode = m0644, ModTime = t, UID = 0, GID = 0, Nlink = 1\<rparr>"
    by (rule initBaseFS_file[OF split notin]) simp_all
  have c: "fst (alloc_bytes
               ([] # filter (\<lambda>c. c \<noteq> []) (map (\<lambda>f. fst (snd f)) (take 7 files)))
               ''127.0.0.1 localhost\<newline>127.0.1.1 ubuntu-server\<newline>'')
             = \<lparr>ptr = 8, len = 44, cap = 44\<rparr>"
    by (simp add: alloc_bytes_def files_def passwdContent_def groupContent_def)
  have n: "path_Base ''/etc/hosts'' = ''hosts''"
    by (simp add: path_Base_def path_Split_def)
  show ?thesis
    unfolding e c n by (rule refl)
qed

lemma initBaseFS_heap_hosts:
  "fst (initBaseFS t) ! 8 = ''127.0.0.1 localhost\<newline>127.0.1.1 ubuntu-server\<newline>''"
  by (simp add: initBaseFS_heap files_def passwdContent_def groupContent_def)

text \<open>The heap of the initial filesystem holds the empty array, the 18 non-empty files
  and the 108 command stubs.\<close>

lemma initBaseFS_heap_length: "length (fst (initBaseFS t)) = 127"
proof -
  have f: "length (filter (\<lambda>c. c \<noteq> []) (map (\<lambda>f. fst (snd f)) files)) = 18"
    by (simp add: files_def passwdContent_def groupContent_def)
  have "filter (\<lambda>c. c \<noteq> []) (map (\<lambda>f. fst (snd f)) bin_files) = map (\<lambda>f. fst (snd f)) bin_files"
    by (rule filter_True) (auto simp: bin_files_def binContent_def)
  then have b: "length (filter (\<lambda>c. c \<noteq> []) (map (\<lambda>f. fst (snd f)) bin_files)) = 108"
    by (simp add: bin_files_def length_concat o_def cmds_def)
  show ?thesis
    unfolding initBaseFS_heap using f b by simp
qed

lemma initBaseFS_tmp_x: "map_of (snd (initBaseFS t)) ''/tmp/x'' = None"
  by (simp add: initBaseFS_other files_keys dirs_def)

lemma initFS_Heap: "Heap (initFS t) = fst (initBaseFS t)"
  by (simp add: initFS_def split: prod.split)

lemma initFS_BaseFS: "BaseFS (initFS t) = snd (initBaseFS t)"
  by (simp add: initFS_def split: prod.split)

lemma initFS_Sessions: "Sessions (initFS t) = [NewSessionFS]"
  by (simp add: initFS_def split: prod.split)

lemma initFS_GlobalSessionFS: "GlobalSessionFS (initFS t) = 0"
  by (simp add: initFS_def split: prod.split)

lemma Clean_etc_hosts: "path_Clean ''/etc/hosts'' = ''/etc/hosts''"
  by (simp add: path_Clean_def clean_step_def)

section \<open>Properties of the session filesystem\<close>

lemma map_of_update_same: "map_of (AList.update k v al) k = Some v"
  by (simp add: update_conv')

lemma map_of_update_other: "k' \<noteq> k \<Longrightarrow> map_of (AList.update k v al) k' = map_of al k'"
  by (simp add: update_conv')

text \<open>
  Claim C10. For every path \<open>p\<close>, \<open>Mkdir\<close> returns no error and puts a new directory entry
  into the overlay at the cleaned path: empty content, owner and group root, two links,
  mode 0755 with the directory bit. Whatever the path resolved to before (a file of the
  overlay or of BaseFS, a tombstone, nothing), a lookup of \<open>p\<close> in the session now yields
  this directory, so an earlier file's content can no longer be reached there.
\<close>

theorem Mkdir_always_installs_directory:
  "\<exists>fs'. Mkdir fs p now = Inr fs'
     \<and> map_of (overlay fs') (path_Clean p)
         = Some (Some \<lparr>Name = path_Base (path_Clean p), IsDir = True, Content = nil_slice,
                       Mode = m0755 OR ModeDir, ModTime = now, UID = 0, GID = 0,
                       Nlink = 2\<rparr>)
     \<and> GetEntry base fs' p
         = Some \<lparr>Name = path_Base (path_Clean p), IsDir = True, Content = nil_slice,
                 Mode = m0755 OR ModeDir, ModTime = now, UID = 0, GID = 0, Nlink = 2\<rparr>
     \<and> bytes_of h nil_slice = []
     \<and> cwd fs' = cwd fs"
  by (simp add: Mkdir_def GetEntry_def Let_def map_of_update_same bytes_of_def nil_slice_def)

text \<open>
  Claim C3. Read-your-own-writes: when the data is at most \<open>MaxFileSize\<close> bytes long,
  \<open>Write\<close> succeeds, and a lookup of the same path in the resulting session finds an entry
  whose content is the slice written, hence the same bytes in every heap. (This holds
  for every path, normalized or not: both operations clean the path first.)
\<close>

theorem Write_read_your_own_writes:
  assumes "len data \<le> MaxFileSize"
  shows "\<exists>fs'. Write base fs p data mode now = Inr fs'
           \<and> (\<exists>e. GetEntry base fs' p = Some e \<and> Content e = data
                  \<and> bytes_of h (Content e) = bytes_of h data)"
proof (cases "map_of (overlay fs) (path_Clean p)")
  case None
  then show ?thesis
    using assms by (simp add: Write_def GetEntry_def Let_def map_of_update_same)
next
  case (Some oe)
  then show ?thesis
    using assms
    by (cases oe) (simp_all add: Write_def GetEntry_def Let_def map_of_update_same)
qed

theorem Write_read_your_own_writes_witness:
  "len \<lparr>ptr = 1, len = 5, cap = 5\<rparr> \<le> MaxFileSize
   \<and> (\<exists>fs'. Write [] NewSessionFS ''/tmp/x'' \<lparr>ptr = 1, len = 5, cap = 5\<rparr> m0644 7 = Inr fs'
           \<and> (\<exists>e. GetEntry [] fs' ''/tmp/x'' = Some e \<and> Content e = \<lparr>ptr = 1, len = 5, cap = 5\<rparr>
                  \<and> bytes_of [[], ''hello''] (Content e)
                      = bytes_of [[], ''hello''] \<lparr>ptr = 1, len = 5, cap = 5\<rparr>))"
proof -
  have h: "len \<lparr>ptr = 1, len = 5, cap = 5\<rparr> \<le> MaxFileSize"
    by (simp add: MaxFileSize_def)
  show ?thesis
    using h Write_read_your_own_writes [OF h, of "[]" NewSessionFS "''/tmp/x''" m0644 7
        "[[], ''hello'']"]
    by simp
qed

text \<open>
  Claim C4, as stated, fails when the two paths are the same: \<open>Rename\<close> stores the copy
  under the new path and then the tombstone under the old one, so renaming
  \<^verbatim>\<open>/etc/hosts\<close> to itself in a fresh session leaves only the tombstone, and the path is
  no longer found.
\<close>

theorem Rename_same_path_counterexample:
  "path_Clean ''/etc/hosts'' = ''/etc/hosts''
   \<and> GetEntry (snd (initBaseFS 0)) NewSessionFS ''/etc/hosts''
       = Some \<lparr>Name = ''hosts'', IsDir = False, Content = \<lparr>ptr = 8, len = 44, cap = 44\<rparr>,
               Mode = m0644, ModTime = 0, UID = 0, GID = 0, Nlink = 1\<rparr>
   \<and> Rename (snd (initBaseFS 0)) NewSessionFS ''/etc/hosts'' ''/etc/hosts'' 1
       = Inr \<lparr>overlay = [(''/etc/hosts'', None)], cwd = ''/root''\<rparr>
   \<and> GetEntry (snd (initBaseFS 0)) \<lparr>overlay = [(''/etc/hosts'', None)], cwd = ''/root''\<rparr>
        ''/etc/hosts'' = None"
proof -
  have c: "path_Clean ''/etc/hosts'' = ''/etc/hosts''"
    by (simp add: path_Clean_def clean_step_def)
  show ?thesis
    by (simp add: c Rename_def GetEntry_def NewSessionFS_def initBaseFS_hosts)
qed

text \<open>
  Claim C4, amended. For two different normalized paths \<open>a\<close> and \<open>b\<close> (\<open>path_Clean\<close>
  leaves them unchanged) such that \<open>a\<close> is found, \<open>Rename\<close> succeeds; afterwards \<open>b\<close> is
  found with the content slice \<open>a\<close> had (the same bytes in every heap), and \<open>a\<close> is not
  found.
\<close>

theorem Rename_round_trip:
  assumes "a \<noteq> b" and "path_Clean a = a" and "path_Clean b = b"
    and "GetEntry base fs a = Some e"
  shows "\<exists>fs'. Rename base fs a b now = Inr fs'
           \<and> (\<exists>e'. GetEntry base fs' b = Some e' \<and> Content e' = Content e
                   \<and> bytes_of h (Content e') = bytes_of h (Content e))
           \<and> GetEntry base fs' a = None"
  using assms
  by (simp add: Rename_def GetEntry_def Let_def map_of_update_same map_of_update_other)

theorem Rename_round_trip_witness:
  "''/etc/hosts'' \<noteq> ''/tmp/h'' \<and> path_Clean ''/etc/hosts'' = ''/etc/hosts''
   \<and> path_Clean ''/tmp/h'' = ''/tmp/h''
   \<and> GetEntry (snd (initBaseFS 0)) NewSessionFS ''/etc/hosts''
       = Some \<lparr>Name = ''hosts'', IsDir = False, Content = \<lparr>ptr = 8, len = 44, cap = 44\<rparr>,
               Mode = m0644, ModTime = 0, UID = 0, GID = 0, Nlink = 1\<rparr>
   \<and> (\<exists>fs'. Rename (snd (initBaseFS 0)) NewSessionFS ''/etc/hosts'' ''/tmp/h'' 1 = Inr fs'
          \<and> (\<exists>e'. GetEntry (snd (initBaseFS 0)) fs' ''/tmp/h'' = Some e'
                  \<and> Content e' = \<lparr>ptr = 8, len = 44, cap = 44\<rparr>
                  \<and> bytes_of (fst (initBaseFS 0)) (Content e')
                      = ''127.0.0.1 localhost\<newline>127.0.1.1 ubuntu-server\<newline>'')
          \<and> GetEntry (snd (initBaseFS 0)) fs' ''/etc/hosts'' = None)"
proof -
  have ne: "''/etc/hosts'' \<noteq> ''/tmp/h''"
    by simp
  have ca: "path_Clean ''/etc/hosts'' = ''/etc/hosts''"
    by (simp add: path_Clean_def clean_step_def)
  have cb: "path_Clean ''/tmp/h'' = ''/tmp/h''"
    by (simp add: path_Clean_def clean_step_def)
  have g: "GetEntry (snd (initBaseFS 0)) NewSessionFS ''/etc/hosts''
       = Some \<lparr>Name = ''hosts'', IsDir = False, Content = \<lparr>ptr = 8, len = 44, cap = 44\<rparr>,
               Mode = m0644, ModTime = 0, UID = 0, GID = 0, Nlink = 1\<rparr>"
    by (simp add: ca GetEntry_def NewSessionFS_def initBaseFS_hosts)
  have b: "bytes_of (fst (initBaseFS 0)) \<lparr>ptr = 8, len = 44, cap = 44\<rparr>
       = ''127.0.0.1 localhost\<newline>127.0.1.1 ubuntu-server\<newline>''"
    by (simp add: bytes_of_def initBaseFS_heap_hosts)
  show ?thesis
    using ne ca cb g b Rename_round_trip [OF ne ca cb g, of 1 "fst (initBaseFS 0)"]
    by auto
qed

section \<open>The contract of ListDir\<close>



















lemma split_on_no_sep: "f \<in> set (split_on c s) \<Longrightarrow> c \<notin> set f"
  by (induction s arbitrary: f) (auto split: if_splits list.splits)

lemma split_on_not_Nil: "split_on c s \<noteq> []"
  by (induction s) (auto split: list.splits)

lemma split_on_plain: "c \<notin> set f \<Longrightarrow> split_on c f = [f]"
  by (induction f) auto

lemma split_on_append: "c \<notin> set f \<Longrightarrow> split_on c (f @ c # s) = f # split_on c s"
  by (induction f) auto


lemma join_with_Cons:
  "join_with sep (d # ds) = (if ds = [] then d else d @ sep @ join_with sep ds)"
  by (cases ds) auto

lemma split_on_join:
  "list_all good_elem cs \<Longrightarrow> cs \<noteq> [] \<Longrightarrow> split_on CHR ''/'' (join_with ''/'' cs) = cs"
proof (induction cs)
  case Nil
  then show ?case by simp
next
  case (Cons d ds)
  have d: "CHR ''/'' \<notin> set d"
    using Cons.prems by (simp add: good_elem_def)
  show ?case
  proof (cases ds)
    case Nil
    then show ?thesis
      using d by (simp add: split_on_plain)
  next
    case (Cons e es)
    then show ?thesis
      using d Cons.IH Cons.prems by (simp add: join_with_Cons split_on_append)
  qed
qed

lemma foldl_clean_step_good:
  "list_all good_elem cs \<Longrightarrow> foldl (clean_step r) st cs = rev cs @ st"
  by (induction cs arbitrary: st) (auto simp: clean_step_def good_elem_def)

lemma clean_step_Nil [simp]: "clean_step r st [] = st"
  by (simp add: clean_step_def)


text \<open>\<^verbatim>\<open>path.Clean\<close> keeps a rooted path of good elements, and removes one slash at its
  end.\<close>

lemma Clean_good:
  assumes "list_all good_elem cs"
  shows "path_Clean (CHR ''/'' # join_with ''/'' cs) = CHR ''/'' # join_with ''/'' cs"
proof (cases "cs = []")
  case True
  then show ?thesis
    by (simp add: path_Clean_def)
next
  case False
  have "split_on CHR ''/'' (CHR ''/'' # join_with ''/'' cs) = [] # cs"
    using split_on_join[OF assms False] by simp
  then show ?thesis
    using assms by (simp add: path_Clean_def foldl_clean_step_good)
qed


text \<open>The elements that \<^verbatim>\<open>path.Clean\<close> keeps of a rooted path are good.\<close>

lemma foldl_clean_step_rooted:
  "list_all good_elem st \<Longrightarrow> \<forall>f \<in> set fs. CHR ''/'' \<notin> set f \<Longrightarrow>
     list_all good_elem (foldl (clean_step True) st fs)"
proof (induction fs arbitrary: st)
  case Nil
  then show ?case by simp
next
  case (Cons f fs)
  have "list_all good_elem (clean_step True st f)"
    using Cons.prems by (cases st) (auto simp: clean_step_def good_elem_def[of f])
  then show ?case
    using Cons by simp
qed

lemma Clean_rooted:
  assumes "p \<noteq> []" and "hd p = CHR ''/''"
  shows "\<exists>cs. list_all good_elem cs \<and> path_Clean p = CHR ''/'' # join_with ''/'' cs"
proof -
  let ?cs = "rev (foldl (clean_step True) [] (split_on CHR ''/'' p))"
  have "list_all good_elem (foldl (clean_step True) [] (split_on CHR ''/'' p))"
    by (rule foldl_clean_step_rooted) (auto dest: split_on_no_sep)
  then have "list_all good_elem ?cs"
    by simp
  moreover have "path_Clean p = CHR ''/'' # join_with ''/'' ?cs"
    using assms by (simp add: path_Clean_def)
  ultimately show ?thesis
    by blast
qed

lemma normalized_Clean: "p \<noteq> [] \<Longrightarrow> hd p = CHR ''/'' \<Longrightarrow> normalized (path_Clean p)"
  using Clean_rooted[of p] Clean_good by (auto simp: normalized_def)






text \<open>In a normalized overlay no two children of a directory concern the same name.\<close>

lemma normalized_overlay_lookup:
  assumes "normalized_overlay ov" and "map_of ov k = Some (Some e)"
  shows "Name e = path_Base k"
proof -
  have "(k, Some e) \<in> set ov"
    using assms(2) by (rule map_of_SomeD)
  then show ?thesis
    using assms(1) by (auto simp: normalized_overlay_def list_all_iff named_by_key_def)
qed


text \<open>
  The overlay of a new session is normalized, and it stays normalized under \<open>Write\<close>,
  \<open>Mkdir\<close> and \<open>Remove\<close> of rooted paths (they clean the path), under \<open>Rename\<close> of
  normalized paths, and under \<open>Chmod\<close> and \<open>Chown\<close> of a normalized path when the entries
  of BaseFS are named by their keys (as \<^verbatim>\<open>initFS\<close> makes them).
\<close>

lemma normalized_overlay_New: "normalized_overlay (overlay NewSessionFS)"
  by (simp add: normalized_overlay_def NewSessionFS_def)

lemma normalized_overlay_update:
  assumes "normalized_overlay ov" and "normalized k" and "named_by_key (k, v)"
  shows "normalized_overlay (AList.update k v ov)"
proof -
  have "list_all (\<lambda>pe. normalized (fst pe) \<and> named_by_key pe) (AList.update k v ov)"
    using assms by (induction ov) (auto simp: normalized_overlay_def)
  then show ?thesis
    using assms(1) by (simp add: normalized_overlay_def distinct_update)
qed

lemma Write_normalized:
  assumes "normalized_overlay (overlay fs)" and "p \<noteq> []" and "hd p = CHR ''/''"
    and "Write base fs p data mode now = Inr fs'"
  shows "normalized_overlay (overlay fs')"
proof -
  have n: "normalized (path_Clean p)"
    using assms(2,3) by (rule normalized_Clean)
  show ?thesis
  proof (cases "\<exists>e. map_of (overlay fs) (path_Clean p) = Some (Some e)")
    case True
    then obtain e where e: "map_of (overlay fs) (path_Clean p) = Some (Some e)"
      by blast
    have "Name e = path_Base (path_Clean p)"
      using normalized_overlay_lookup[OF assms(1) e] .
    then show ?thesis
      using assms(4) e normalized_overlay_update[OF assms(1) n]
      by (auto simp: Write_def Let_def named_by_key_def split: if_splits)
  next
    case False
    then show ?thesis
      using assms(4) normalized_overlay_update[OF assms(1) n]
      by (auto simp: Write_def Let_def named_by_key_def split: if_splits option.splits)
  qed
qed

lemma Mkdir_normalized:
  assumes "normalized_overlay (overlay fs)" and "p \<noteq> []" and "hd p = CHR ''/''"
    and "Mkdir fs p now = Inr fs'"
  shows "normalized_overlay (overlay fs')"
  using assms(4) normalized_overlay_update[OF assms(1) normalized_Clean[OF assms(2,3)]]
  by (auto simp: Mkdir_def Let_def named_by_key_def)

lemma Remove_normalized:
  assumes "normalized_overlay (overlay fs)" and "p \<noteq> []" and "hd p = CHR ''/''"
    and "Remove fs p = Inr fs'"
  shows "normalized_overlay (overlay fs')"
  using assms(4) normalized_overlay_update[OF assms(1) normalized_Clean[OF assms(2,3)]]
  by (auto simp: Remove_def Let_def named_by_key_def)

lemma Rename_normalized:
  assumes "normalized_overlay (overlay fs)" and "normalized oldP" and "normalized newP"
    and "Rename base fs oldP newP now = Inr fs'"
  shows "normalized_overlay (overlay fs')"
proof -
  obtain e where fs': "fs' = fs\<lparr>overlay := AList.update oldP None
      (AList.update newP (Some (e\<lparr>Name := path_Base newP, ModTime := now\<rparr>)) (overlay fs))\<rparr>"
    using assms(4) by (auto simp: Rename_def Let_def split: option.splits)
  have "normalized_overlay
      (AList.update newP (Some (e\<lparr>Name := path_Base newP, ModTime := now\<rparr>)) (overlay fs))"
    by (rule normalized_overlay_update[OF assms(1,3)]) (simp add: named_by_key_def)
  then have "normalized_overlay (AList.update oldP None
      (AList.update newP (Some (e\<lparr>Name := path_Base newP, ModTime := now\<rparr>)) (overlay fs)))"
    by (rule normalized_overlay_update[OF _ assms(2)]) (simp add: named_by_key_def)
  then show ?thesis
    by (simp add: fs')
qed

lemma GetEntry_named:
  assumes "normalized_overlay (overlay fs)" and "normalized p"
    and "\<forall>k e. map_of base k = Some e \<longrightarrow> Name e = path_Base k"
    and "GetEntry base fs p = Some e"
  shows "Name e = path_Base p"
proof -
  have c: "path_Clean p = p"
    using assms(2) by (simp add: normalized_def)
  show ?thesis
    using assms(3,4) normalized_overlay_lookup[OF assms(1), of p]
    by (auto simp: GetEntry_def c split: option.splits)
qed

lemma Chmod_normalized:
  assumes "normalized_overlay (overlay fs)" and "normalized p"
    and "\<forall>k e. map_of base k = Some e \<longrightarrow> Name e = path_Base k"
    and "Chmod base fs p mode now = Inr fs'"
  shows "normalized_overlay (overlay fs')"
proof -
  obtain e where e: "GetEntry base fs p = Some e"
    using assms(4) by (auto simp: Chmod_def split: option.splits)
  have ne: "Name e = path_Base p"
    using GetEntry_named[OF assms(1,2,3) e] .
  have nx: "Name x = path_Base p" if "map_of (overlay fs) p = Some (Some x)" for x
    using normalized_overlay_lookup[OF assms(1) that] .
  show ?thesis
    using assms(4) e ne nx normalized_overlay_update[OF assms(1,2)]
    by (auto simp: Chmod_def named_by_key_def split: option.splits)
qed

lemma Chown_normalized:
  assumes "normalized_overlay (overlay fs)" and "normalized p"
    and "\<forall>k e. map_of base k = Some e \<longrightarrow> Name e = path_Base k"
    and "Chown base fs p uid gid now = Inr fs'"
  shows "normalized_overlay (overlay fs')"
proof -
  obtain e where e: "GetEntry base fs p = Some e"
    using assms(4) by (auto simp: Chown_def split: option.splits)
  have ne: "Name e = path_Base p"
    using GetEntry_named[OF assms(1,2,3) e] .
  have nx: "Name x = path_Base p" if "map_of (overlay fs) p = Some (Some x)" for x
    using normalized_overlay_lookup[OF assms(1) that] .
  show ?thesis
    using assms(4) e ne nx normalized_overlay_update[OF assms(1,2)]
    by (auto simp: Chown_def Let_def named_by_key_def split: option.splits)
qed

text \<open>The entries of the initial BaseFS are named by their keys.\<close>

lemma named_update:
  "list_all (\<lambda>ke. Name (snd ke) = path_Base (fst ke)) b \<Longrightarrow> Name e = path_Base k \<Longrightarrow>
     list_all (\<lambda>ke. Name (snd ke) = path_Base (fst ke)) (AList.update k e b)"
  by (induction b) auto

lemma foldl_add_dir_named:
  "list_all (\<lambda>ke. Name (snd ke) = path_Base (fst ke)) b \<Longrightarrow>
     list_all (\<lambda>ke. Name (snd ke) = path_Base (fst ke)) (foldl (add_dir t) b ds)"
proof (induction ds arbitrary: b)
  case Nil
  then show ?case by simp
next
  case (Cons d ds)
  have "list_all (\<lambda>ke. Name (snd ke) = path_Base (fst ke)) (add_dir t b d)"
    unfolding add_dir_def by (rule named_update[OF Cons.prems]) simp
  from Cons.IH[OF this] show ?case
    by simp
qed

lemma foldl_add_named:
  "list_all (\<lambda>ke. Name (snd ke) = path_Base (fst ke)) b \<Longrightarrow>
     list_all (\<lambda>ke. Name (snd ke) = path_Base (fst ke)) (snd (foldl (add t) (h, b) fs))"
proof (induction fs arbitrary: h b)
  case Nil
  then show ?case by simp
next
  case (Cons f fs)
  obtain p c m u g where f: "f = (p, c, m, u, g)"
    by (cases f) auto
  obtain h2 b2 where s: "add t (h, b) (p, c, m, u, g) = (h2, b2)"
    by (cases "add t (h, b) (p, c, m, u, g)") auto
  have b2: "b2 = AList.update p
        \<lparr>Name = path_Base p, IsDir = False,
         Content = (if c = [] then \<lparr>ptr = 0, len = 0, cap = 0\<rparr>
                    else \<lparr>ptr = length h, len = length c, cap = length c\<rparr>),
         Mode = m, ModTime = t, UID = u, GID = g, Nlink = 1\<rparr> b"
    using s unfolding add_step by simp
  have "list_all (\<lambda>ke. Name (snd ke) = path_Base (fst ke)) b2"
    unfolding b2 by (rule named_update[OF Cons.prems]) simp
  from Cons.IH[OF this, of h2] show ?case
    by (simp add: f s)
qed

lemma initBaseFS_named:
  "\<forall>k e. map_of (snd (initBaseFS t)) k = Some e \<longrightarrow> Name e = path_Base k"
proof -
  have "list_all (\<lambda>ke. Name (snd ke) = path_Base (fst ke)) (snd (initBaseFS t))"
    unfolding initBaseFS_def
    by (rule foldl_add_named, rule foldl_add_dir_named) simp
  then show ?thesis
    by (auto simp: list_all_iff dest!: map_of_SomeD)
qed




section \<open>Properties of the SFTP adapter\<close>

text \<open>
  Claim C2 (the content of BaseFS is never changed) does not hold of the code. \<open>Rename\<close>
  copies the entry found, which for a path of BaseFS is the BaseFS entry, so the copy in
  the overlay has the same content slice; \<open>WriteAt\<close> then finds an overlay entry and
  copies the new bytes into its array in place, which is the array of the BaseFS entry.
  After an SFTP rename of \<^verbatim>\<open>/etc/hosts\<close> to \<^verbatim>\<open>/tmp/h\<close> and a write of the byte \<^verbatim>\<open>X\<close> at
  offset 0 of \<^verbatim>\<open>/tmp/h\<close>, the BaseFS map is the same, but the content of its entry for
  \<^verbatim>\<open>/etc/hosts\<close> starts with \<^verbatim>\<open>X\<close>, also for a session created afterwards.
\<close>

theorem BaseFS_content_changed_by_Rename_WriteAt:
  "(case Filecmd (initFS 0) 0
           \<lparr>Method = ''Rename'', Filepath = ''/etc/hosts'', Target = ''/tmp/h'', AttrMode = 0\<rparr> 1
    of (r1, w1) \<Rightarrow>
      (case WriteAt w1 0 ''/tmp/h'' ''X'' 0 2 of (r2, w2) \<Rightarrow>
         r1 = None \<and> r2 = Written 1
         \<and> BaseFS w2 = BaseFS (initFS 0)
         \<and> map_of (BaseFS w2) ''/etc/hosts''
             = Some \<lparr>Name = ''hosts'', IsDir = False, Content = \<lparr>ptr = 8, len = 44, cap = 44\<rparr>,
                     Mode = m0644, ModTime = 0, UID = 0, GID = 0, Nlink = 1\<rparr>
         \<and> bytes_of (Heap (initFS 0)) \<lparr>ptr = 8, len = 44, cap = 44\<rparr>
             = ''127.0.0.1 localhost\<newline>127.0.1.1 ubuntu-server\<newline>''
         \<and> bytes_of (Heap w2) \<lparr>ptr = 8, len = 44, cap = 44\<rparr>
             = ''X27.0.0.1 localhost\<newline>127.0.1.1 ubuntu-server\<newline>''
         \<and> (case new_session w2 of (b, w3) \<Rightarrow>
               Fileread w3 b ''/etc/hosts''
                 = Inr ''X27.0.0.1 localhost\<newline>127.0.1.1 ubuntu-server\<newline>'')))"
proof -
  let ?e = "\<lparr>Name = ''h'', IsDir = False, Content = \<lparr>ptr = 8, len = 44, cap = 44\<rparr>,
             Mode = m0644, ModTime = 1, UID = 0, GID = 0, Nlink = 1\<rparr>"
  let ?fs1 = "\<lparr>overlay = [(''/tmp/h'', Some ?e), (''/etc/hosts'', None)], cwd = ''/root''\<rparr>"
  let ?w1 = "(initFS 0)\<lparr>Sessions := [?fs1]\<rparr>"
  have b: "path_Base ''/tmp/h'' = ''h''"
    by (simp add: path_Base_def path_Split_def)
  have s1: "Filecmd (initFS 0) 0
      \<lparr>Method = ''Rename'', Filepath = ''/etc/hosts'', Target = ''/tmp/h'', AttrMode = 0\<rparr> 1
      = (None, ?w1)"
    by (simp add: Filecmd_def Rename_def GetEntry_def Clean_etc_hosts initFS_Sessions
        initFS_BaseFS initBaseFS_hosts NewSessionFS_def set_session_def b)
  let ?h2 = "(fst (initBaseFS 0))[8 := ''X27.0.0.1 localhost\<newline>127.0.1.1 ubuntu-server\<newline>'']"
  let ?fs2 = "\<lparr>overlay = [(''/tmp/h'', Some (?e\<lparr>ModTime := 2\<rparr>)), (''/etc/hosts'', None)],
               cwd = ''/root''\<rparr>"
  let ?w2 = "(initFS 0)\<lparr>Sessions := [?fs2], Heap := ?h2\<rparr>"
  have en: "WriteAt_entry ?w1 0 ''/tmp/h'' (length ''X'') 0 2 = Some (?e, ?w1)"
    by (simp add: WriteAt_entry_def)
  have s2: "WriteAt ?w1 0 ''/tmp/h'' ''X'' 0 2 = (Written 1, ?w2)"
    unfolding WriteAt_def en
    by (simp add: wrap64_def MaxFileSize_def set_session_def copy_into_def initFS_Heap
        initBaseFS_heap_hosts)
  have old: "bytes_of (Heap (initFS 0)) \<lparr>ptr = 8, len = 44, cap = 44\<rparr>
      = ''127.0.0.1 localhost\<newline>127.0.1.1 ubuntu-server\<newline>''"
    by (simp add: bytes_of_def initFS_Heap initBaseFS_heap_hosts)
  have new: "bytes_of ?h2 \<lparr>ptr = 8, len = 44, cap = 44\<rparr>
      = ''X27.0.0.1 localhost\<newline>127.0.1.1 ubuntu-server\<newline>''"
    by (simp add: bytes_of_def initBaseFS_heap_length)
  have rd: "Fileread (?w2\<lparr>Sessions := [?fs2] @ [NewSessionFS]\<rparr>) 1 ''/etc/hosts''
      = Inr ''X27.0.0.1 localhost\<newline>127.0.1.1 ubuntu-server\<newline>''"
    using new
    by (simp add: Fileread_def GetEntry_def Clean_etc_hosts NewSessionFS_def initFS_BaseFS
        initBaseFS_hosts)
  show ?thesis
    unfolding s1 prod.case s2
    using old new rd by (simp add: new_session_def initFS_BaseFS initBaseFS_hosts)
qed

text \<open>
  Claim C5, first part: \<open>Write\<close> accepts data of exactly \<open>MaxFileSize\<close> bytes and refuses,
  with the quota error, data one byte longer.
\<close>

lemma Write_quota_boundary:
  "(len data = MaxFileSize \<longrightarrow> (\<exists>fs'. Write base fs p data mode now = Inr fs'))
   \<and> (len data = MaxFileSize + 1 \<longrightarrow> Write base fs p data mode now = Inl ErrQuota)"
  by (auto simp: Write_def Let_def split: option.splits)

text \<open>
  Claim C5, second part, does not hold of the code: \<open>WriteAt\<close> adds the offset and the
  length in 64-bit arithmetic and, for a path not yet in the overlay, allocates the new
  array before it checks the quota. At offset \<open>2 ^ 63 - 1\<close> the sum of offset and length
  wraps to a negative number, passes the quota check, and the slice expression panics;
  at offset \<open>2 ^ 62\<close> the allocation of the new array panics. In both cases the offset
  plus the length exceeds \<open>MaxFileSize\<close> and no quota error is returned.
\<close>

theorem WriteAt_huge_offset_no_quota_error:
  "fst (WriteAt (initFS 0) 0 ''/tmp/x'' ''X'' (2 ^ 63 - 1) 1) = PanicSliceBounds
   \<and> (2 ^ 63 - 1) + int (length ''X'') > int MaxFileSize
   \<and> fst (WriteAt (initFS 0) 0 ''/tmp/x'' ''X'' (2 ^ 62) 1) = PanicMakeslice
   \<and> 2 ^ 62 + int (length ''X'') > int MaxFileSize"
proof -
  have a: "fst (WriteAt (initFS 0) 0 ''/tmp/x'' ''X'' (2 ^ 63 - 1) 1) = PanicSliceBounds"
    by (simp add: WriteAt_def WriteAt_entry_def initFS_Sessions initFS_BaseFS
        initBaseFS_tmp_x NewSessionFS_def nil_slice_def wrap64_def make_slice_def
        maxAlloc_def MaxFileSize_def set_session_def Let_def)
  have b: "fst (WriteAt (initFS 0) 0 ''/tmp/x'' ''X'' (2 ^ 62) 1) = PanicMakeslice"
    by (simp add: WriteAt_def WriteAt_entry_def initFS_Sessions initFS_BaseFS
        initBaseFS_tmp_x NewSessionFS_def nil_slice_def wrap64_def make_slice_def
        maxAlloc_def MaxFileSize_def set_session_def Let_def)
  show ?thesis
    using a b by (simp add: MaxFileSize_def)
qed

section \<open>Properties of the Telnet read path\<close>

text \<open>
  Claim C8, as stated, fails for \<^verbatim>\<open>CR NUL\<close>: \<open>Read\<close> turns the \<^verbatim>\<open>CR\<close> into \<^verbatim>\<open>LF\<close> and then
  skips only an \<^verbatim>\<open>LF\<close>; the \<^verbatim>\<open>NUL\<close> is delivered as well, so the pair yields two bytes
  (here on a connection that accepts every write).
\<close>

theorem Telnet_CR_NUL_counterexample:
  "app_stream (newTelnetStream [CR, CHR 0x00] None) = [LF, CHR 0x00]"
  by (simp add: app_stream_decode telnet_decode.simps(2) newTelnetStream_def)

text \<open>
  The stream also ends early, whatever bytes follow, when the reply to an option command
  cannot be written: \<open>Read\<close> then returns the error of the write.
\<close>

lemma Telnet_failed_reply_ends_stream:
  "app_stream (newTelnetStream [cmdIAC, cmdWILL, CHR 0x63, CHR ''a''] (Some 0)) = []
   \<and> telnet_decode False [cmdIAC, cmdWILL, CHR 0x63, CHR ''a''] = ''a''"
proof -
  have "Read (newTelnetStream [cmdIAC, cmdWILL, CHR 0x63, CHR ''a''] (Some 0))
      = (Inl ErrWrite, (newTelnetStream ''a'' (Some 0)))"
    by (subst Read.simps) (simp add: newTelnetStream_def handleOption_def conn_Write_def)
  then show ?thesis
    by (subst app_stream.simps) (simp add: telnet_decode.simps(2))
qed

text \<open>
  Claim C8, amended. For every inbound byte sequence and every state of the stream, the
  application stream is a prefix of \<open>telnet_decode\<close> of the inbound bytes, and it is all
  of it when the connection accepts every write (the stream ends early only where the
  reply to an option command cannot be written). In \<open>telnet_decode\<close> each \<^verbatim>\<open>CR\<close> yields
  exactly one \<^verbatim>\<open>LF\<close>, an \<^verbatim>\<open>LF\<close> directly after a \<^verbatim>\<open>CR\<close> is dropped (so \<^verbatim>\<open>CR LF\<close> is one \<^verbatim>\<open>LF\<close>,
  while \<^verbatim>\<open>CR\<close> before any other byte, \<^verbatim>\<open>NUL\<close> included, is an \<^verbatim>\<open>LF\<close> followed by what that
  byte yields), \<^verbatim>\<open>IAC IAC\<close> yields one byte \<^verbatim>\<open>0xFF\<close>, and every byte other than \<^verbatim>\<open>CR\<close> and
  \<^verbatim>\<open>IAC\<close> that is not part of a command is passed through unchanged, in order.
\<close>

theorem Telnet_read_path:
  "prefix (app_stream ts) (telnet_decode (skipLF ts) (inbound ts))
   \<and> (writesLeft ts = None \<longrightarrow> app_stream ts = telnet_decode (skipLF ts) (inbound ts))
   \<and> telnet_decode False (CR # LF # rest) = LF # telnet_decode False rest
   \<and> (b \<noteq> LF \<longrightarrow> telnet_decode False (CR # b # rest) = LF # telnet_decode False (b # rest))
   \<and> telnet_decode False (cmdIAC # cmdIAC # rest) = cmdIAC # telnet_decode False rest
   \<and> (c \<noteq> CR \<and> c \<noteq> cmdIAC \<longrightarrow> telnet_decode False (c # rest) = c # telnet_decode False rest)"
proof -
  have 1: "telnet_decode False (CR # LF # rest) = LF # telnet_decode False rest"
    by (simp add: telnet_decode.simps(2))
  have 2: "b \<noteq> LF \<longrightarrow> telnet_decode False (CR # b # rest) = LF # telnet_decode False (b # rest)"
    by (simp add: telnet_decode.simps(2))
  have 3: "telnet_decode False (cmdIAC # cmdIAC # rest) = cmdIAC # telnet_decode False rest"
    by (simp add: telnet_decode.simps(2))
  have 4: "c \<noteq> CR \<and> c \<noteq> cmdIAC \<longrightarrow> telnet_decode False (c # rest) = c # telnet_decode False rest"
    by (simp add: telnet_decode.simps(2))
  show ?thesis
    using app_stream_prefix app_stream_decode 1 2 3 4 by blast
qed

theorem Telnet_read_path_witness:
  "CHR 0x00 \<noteq> LF \<and> CHR ''a'' \<noteq> CR \<and> CHR ''a'' \<noteq> cmdIAC
   \<and> writesLeft (newTelnetStream (''x'' @ [CR, LF] @ ''y'' @ [cmdIAC, cmdIAC]) None) = None
   \<and> app_stream (newTelnetStream (''x'' @ [CR, LF] @ ''y'' @ [cmdIAC, cmdIAC]) None)
       = telnet_decode False (''x'' @ [CR, LF] @ ''y'' @ [cmdIAC, cmdIAC])
   \<and> telnet_decode False (CR # LF # ''a'') = LF # telnet_decode False ''a''
   \<and> telnet_decode False (CR # CHR 0x00 # ''a'') = LF # telnet_decode False (CHR 0x00 # ''a'')
   \<and> telnet_decode False (cmdIAC # cmdIAC # ''a'') = cmdIAC # telnet_decode False ''a''
   \<and> telnet_decode False (CHR ''a'' # ''bc'') = CHR ''a'' # telnet_decode False ''bc''
   \<and> telnet_decode False (''x'' @ [CR, LF] @ ''y'' @ [cmdIAC, cmdIAC]) = ''x'' @ [LF] @ ''y'' @ [cmdIAC]"
proof -
  have e: "telnet_decode False (''x'' @ [CR, LF] @ ''y'' @ [cmdIAC, cmdIAC])
      = ''x'' @ [LF] @ ''y'' @ [cmdIAC]"
    by (simp add: telnet_decode.simps(2))
  have s: "skipLF (newTelnetStream (''x'' @ [CR, LF] @ ''y'' @ [cmdIAC, cmdIAC]) None) = False"
    "inbound (newTelnetStream (''x'' @ [CR, LF] @ ''y'' @ [cmdIAC, cmdIAC]) None)
      = ''x'' @ [CR, LF] @ ''y'' @ [cmdIAC, cmdIAC]"
    "writesLeft (newTelnetStream (''x'' @ [CR, LF] @ ''y'' @ [cmdIAC, cmdIAC]) None) = None"
    by (simp_all add: newTelnetStream_def)
  show ?thesis
    using Telnet_read_path
      [of "newTelnetStream (''x'' @ [CR, LF] @ ''y'' @ [cmdIAC, cmdIAC]) None" "''a''" "CHR 0x00"
        "CHR ''a''"]
      Telnet_read_path [of "newTelnetStream [] None" "''bc''" "CHR 0x00" "CHR ''a''"] e s
    by simp
qed

end
